theory Spec2Isabelle
  imports Main "HOL-Library.Word"
begin

unbundle bit_operations_syntax

section \<open>The virtual machine of vm.py\<close>

text \<open>
  The interpreter is a Python class \<open>VM\<close> with the fields \<open>memory\<close> (a bytearray),
  \<open>regs\<close> (a list of 16 Python integers), \<open>pc\<close>, \<open>sp\<close> (Python integers) and
  \<open>running\<close>; the field \<open>printed\<close> collects what \<open>run\<close> prints. Python
  integers are unbounded, so they are \<open>int\<close> here and every mask of the source is
  written out. A handler that raises leaves the object as it was at the moment of the
  raise, so an exception is a value that carries the state reached.
\<close>

subsection \<open>Configuration and data\<close>

type_synonym byte = "8 word"

definition NUM_REGS :: nat where
  "NUM_REGS = 16"

definition ACC :: nat where
  "ACC = 15"

definition MEM_SIZE :: nat where
  "MEM_SIZE = 2 ^ 20"

datatype error = StructError | IndexError | ValueError

text \<open>The line printed for an unknown opcode: the opcode and \<open>pc - 10\<close>.\<close>

datatype diagnostic = Unknown_opcode int int

record vm =
  memory :: "byte list"
  regs :: "int list"
  pc :: int
  sp :: int
  running :: bool
  printed :: "diagnostic list"

type_synonym outcome = "(error \<times> vm) + vm"

definition init_vm :: "nat \<Rightarrow> vm" where
  "init_vm memory_size =
     \<lparr>memory = replicate memory_size 0, regs = replicate NUM_REGS 0, pc = 0,
      sp = int memory_size, running = True, printed = []\<rparr>"

subsection \<open>Python slices of a bytearray\<close>

text \<open>
  \<open>xs[i:j]\<close> never raises: a negative bound counts from the end, and both bounds are
  cut to the range \<open>0 .. len(xs)\<close>. An assignment \<open>xs[i:j] = ys\<close> replaces that span
  by \<open>ys\<close> whatever the length of \<open>ys\<close> is, so the bytearray may grow or shrink; when
  the upper bound lies below the lower one the span is empty at the lower bound.
\<close>

definition slice_index :: "nat \<Rightarrow> int \<Rightarrow> nat" where
  "slice_index n i =
     (if i < 0 then (if i + int n < 0 then 0 else nat (i + int n))
      else if int n < i then n else nat i)"

definition py_slice :: "'a list \<Rightarrow> int \<Rightarrow> int \<Rightarrow> 'a list" where
  "py_slice xs i j =
     (let lo = slice_index (length xs) i; hi = slice_index (length xs) j
      in take (hi - lo) (drop lo xs))"

definition py_slice_assign :: "'a list \<Rightarrow> int \<Rightarrow> int \<Rightarrow> 'a list \<Rightarrow> 'a list" where
  "py_slice_assign xs i j ys =
     (let lo = slice_index (length xs) i; hi = max lo (slice_index (length xs) j)
      in take lo xs @ ys @ drop hi xs)"

text \<open>\<open>b[k]\<close> for a constant \<open>k \<ge> 0\<close>: an \<open>IndexError\<close> beyond the end.\<close>

definition byte_at :: "byte list \<Rightarrow> nat \<Rightarrow> error + int" where
  "byte_at b k = (if k < length b then Inr (uint (b ! k)) else Inl IndexError)"

subsection \<open>Helper functions\<close>

definition be_value :: "byte list \<Rightarrow> int" where
  "be_value b = uint (b ! 0) * 2 ^ 24 + uint (b ! 1) * 2 ^ 16 + uint (b ! 2) * 2 ^ 8 + uint (b ! 3)"

text \<open>\<open>struct.unpack(">I", b)\<close> raises \<open>struct.error\<close> unless \<open>b\<close> has 4 bytes.\<close>

definition read_u32_be :: "byte list \<Rightarrow> error + int" where
  "read_u32_be b = (if length b = 4 then Inr (be_value b) else Inl StructError)"

definition read_s32_be :: "byte list \<Rightarrow> error + int" where
  "read_s32_be b =
     (if length b = 4
      then Inr (if be_value b < 2 ^ 31 then be_value b else be_value b - 2 ^ 32)
      else Inl StructError)"

text \<open>\<open>struct.pack(">I", v)\<close> raises \<open>struct.error\<close> unless \<open>0 \<le> v < 2^32\<close>.\<close>

definition pack_u32_be :: "int \<Rightarrow> error + byte list" where
  "pack_u32_be v =
     (if 0 \<le> v \<and> v < 2 ^ 32
      then Inr [word_of_int (v div 2 ^ 24), word_of_int (v div 2 ^ 16),
                word_of_int (v div 2 ^ 8), word_of_int v]
      else Inl StructError)"

definition clamp_reg :: "int \<Rightarrow> int" where
  "clamp_reg r = min r 14"

text \<open>
  Sequencing inside a handler: evaluate \<open>x\<close>; if it raises, the handler stops with the
  state \<open>s\<close> reached so far.
\<close>

definition attempt :: "vm \<Rightarrow> error + 'a \<Rightarrow> ('a \<Rightarrow> outcome) \<Rightarrow> outcome" where
  "attempt s x f = (case x of Inl e \<Rightarrow> Inl (e, s) | Inr v \<Rightarrow> f v)"

text \<open>An explicit register operand: the last byte of the field, clamped.\<close>

definition reg_operand :: "vm \<Rightarrow> byte list \<Rightarrow> (nat \<Rightarrow> outcome) \<Rightarrow> outcome" where
  "reg_operand s field f = attempt s (byte_at field 3) (\<lambda>r. f (nat (clamp_reg r)))"

subsection \<open>Three-argument \<open>pow\<close>\<close>

text \<open>
  \<open>pow(base, e, m)\<close> on integers with \<open>e \<ge> 0\<close> and \<open>m > 0\<close> is the residue of
  \<open>base ** e\<close> in \<open>0 .. m - 1\<close>, found by repeated squaring. With a negative exponent
  Python raises \<open>ValueError\<close> or, in later versions and for an invertible base, returns
  an inverse; that branch is kept as \<open>ValueError\<close> and no register ever holds a negative
  value (lemma \<open>step_regs_ok\<close> below).
\<close>

fun pow_mod :: "int \<Rightarrow> nat \<Rightarrow> int \<Rightarrow> int" where
  "pow_mod base e m =
     (if e = 0 then 1 mod m
      else let h = pow_mod base (e div 2) m; q = h * h mod m
           in if even e then q else q * base mod m)"

declare pow_mod.simps [simp del]

definition py_pow3 :: "int \<Rightarrow> int \<Rightarrow> int \<Rightarrow> error + int" where
  "py_pow3 base e m = (if e < 0 then Inl ValueError else Inr (pow_mod base (nat e) m))"

subsection \<open>Instruction implementations\<close>

text \<open>Data movement.\<close>

definition op_ld :: "byte list \<Rightarrow> byte list \<Rightarrow> vm \<Rightarrow> outcome" where
  "op_ld a b s =
     attempt s (read_u32_be a) (\<lambda>addr.
     reg_operand s b (\<lambda>reg.
     attempt s (read_u32_be (py_slice (memory s) addr (addr + 4))) (\<lambda>v.
     Inr (s\<lparr>regs := (regs s)[reg := v]\<rparr>))))"

definition op_lc :: "byte list \<Rightarrow> byte list \<Rightarrow> vm \<Rightarrow> outcome" where
  "op_lc a b s =
     attempt s (read_u32_be a) (\<lambda>const.
     reg_operand s b (\<lambda>reg.
     Inr (s\<lparr>regs := (regs s)[reg := const]\<rparr>)))"

definition op_dr :: "byte list \<Rightarrow> byte list \<Rightarrow> vm \<Rightarrow> outcome" where
  "op_dr a b s =
     reg_operand s a (\<lambda>reg.
     attempt s (read_u32_be b) (\<lambda>addr.
     attempt s (pack_u32_be (regs s ! reg)) (\<lambda>bytes.
     Inr (s\<lparr>memory := py_slice_assign (memory s) addr (addr + 4) bytes\<rparr>))))"

definition op_cpy :: "byte list \<Rightarrow> byte list \<Rightarrow> vm \<Rightarrow> outcome" where
  "op_cpy a b s =
     reg_operand s a (\<lambda>src.
     reg_operand s b (\<lambda>dst.
     Inr (s\<lparr>regs := (regs s)[dst := regs s ! src]\<rparr>)))"

text \<open>Bitwise operations (results to r15).\<close>

definition op_or :: "byte list \<Rightarrow> byte list \<Rightarrow> vm \<Rightarrow> outcome" where
  "op_or a b s =
     reg_operand s a (\<lambda>r.
     reg_operand s b (\<lambda>s'.
     Inr (s\<lparr>regs := (regs s)[ACC := regs s ! r OR regs s ! s']\<rparr>)))"

definition op_and :: "byte list \<Rightarrow> byte list \<Rightarrow> vm \<Rightarrow> outcome" where
  "op_and a b s =
     reg_operand s a (\<lambda>r.
     reg_operand s b (\<lambda>s'.
     Inr (s\<lparr>regs := (regs s)[ACC := regs s ! r AND regs s ! s']\<rparr>)))"

definition op_xor :: "byte list \<Rightarrow> byte list \<Rightarrow> vm \<Rightarrow> outcome" where
  "op_xor a b s =
     reg_operand s a (\<lambda>r.
     reg_operand s b (\<lambda>s'.
     Inr (s\<lparr>regs := (regs s)[ACC := regs s ! r XOR regs s ! s']\<rparr>)))"

definition op_nand :: "byte list \<Rightarrow> byte list \<Rightarrow> vm \<Rightarrow> outcome" where
  "op_nand a b s =
     reg_operand s a (\<lambda>r.
     reg_operand s b (\<lambda>s'.
     Inr (s\<lparr>regs := (regs s)[ACC := NOT (regs s ! r AND regs s ! s') AND 0xFFFFFFFF]\<rparr>)))"

definition op_nor :: "byte list \<Rightarrow> byte list \<Rightarrow> vm \<Rightarrow> outcome" where
  "op_nor a b s =
     reg_operand s a (\<lambda>r.
     reg_operand s b (\<lambda>s'.
     Inr (s\<lparr>regs := (regs s)[ACC := NOT (regs s ! r OR regs s ! s') AND 0xFFFFFFFF]\<rparr>)))"

definition op_not :: "byte list \<Rightarrow> byte list \<Rightarrow> vm \<Rightarrow> outcome" where
  "op_not a b s =
     reg_operand s a (\<lambda>r.
     Inr (s\<lparr>regs := (regs s)[ACC := NOT (regs s ! r) AND 0xFFFFFFFF]\<rparr>))"

text \<open>Arithmetic operations.\<close>

definition op_add :: "byte list \<Rightarrow> byte list \<Rightarrow> vm \<Rightarrow> outcome" where
  "op_add a b s =
     reg_operand s a (\<lambda>r.
     reg_operand s b (\<lambda>s'.
     Inr (s\<lparr>regs := (regs s)[ACC := (regs s ! r + regs s ! s') AND 0xFFFFFFFF]\<rparr>)))"

definition op_sub :: "byte list \<Rightarrow> byte list \<Rightarrow> vm \<Rightarrow> outcome" where
  "op_sub a b s =
     reg_operand s a (\<lambda>r.
     reg_operand s b (\<lambda>s'.
     Inr (s\<lparr>regs := (regs s)[ACC := (regs s ! r - regs s ! s') AND 0xFFFFFFFF]\<rparr>)))"

definition op_mul :: "byte list \<Rightarrow> byte list \<Rightarrow> vm \<Rightarrow> outcome" where
  "op_mul a b s =
     reg_operand s a (\<lambda>r.
     reg_operand s b (\<lambda>s'.
     Inr (s\<lparr>regs := (regs s)[ACC := (regs s ! r * regs s ! s') AND 0xFFFFFFFF]\<rparr>)))"

definition op_div :: "byte list \<Rightarrow> byte list \<Rightarrow> vm \<Rightarrow> outcome" where
  "op_div a b s =
     reg_operand s a (\<lambda>r.
     reg_operand s b (\<lambda>s'.
     Inr (s\<lparr>regs := (regs s)[ACC := regs s ! r div max (regs s ! s') 1]\<rparr>)))"

definition op_exp :: "byte list \<Rightarrow> byte list \<Rightarrow> vm \<Rightarrow> outcome" where
  "op_exp a b s =
     reg_operand s a (\<lambda>r.
     reg_operand s b (\<lambda>s'.
     attempt s (py_pow3 (regs s ! r) (regs s ! s') (2 ^ 32)) (\<lambda>v.
     Inr (s\<lparr>regs := (regs s)[ACC := v]\<rparr>))))"

text \<open>Control flow.\<close>

definition op_jmp :: "byte list \<Rightarrow> byte list \<Rightarrow> vm \<Rightarrow> outcome" where
  "op_jmp a b s = attempt s (read_u32_be a) (\<lambda>addr. Inr (s\<lparr>pc := addr\<rparr>))"

definition op_jmr :: "byte list \<Rightarrow> byte list \<Rightarrow> vm \<Rightarrow> outcome" where
  "op_jmr a b s = attempt s (read_s32_be a) (\<lambda>offset. Inr (s\<lparr>pc := pc s + offset\<rparr>))"

definition op_cmp :: "byte list \<Rightarrow> byte list \<Rightarrow> vm \<Rightarrow> outcome" where
  "op_cmp a b s =
     reg_operand s a (\<lambda>reg.
     attempt s (read_u32_be b) (\<lambda>addr.
     Inr (if regs s ! reg \<noteq> 0 then s\<lparr>pc := addr\<rparr> else s)))"

definition op_cmr :: "byte list \<Rightarrow> byte list \<Rightarrow> vm \<Rightarrow> outcome" where
  "op_cmr a b s =
     reg_operand s a (\<lambda>reg.
     attempt s (read_s32_be b) (\<lambda>offset.
     Inr (if regs s ! reg \<noteq> 0 then s\<lparr>pc := pc s + offset\<rparr> else s)))"

text \<open>Stack operations. \<open>PSH\<close> and \<open>CALL\<close> lower \<open>sp\<close> before they pack the value.\<close>

definition op_psh :: "byte list \<Rightarrow> byte list \<Rightarrow> vm \<Rightarrow> outcome" where
  "op_psh a b s =
     reg_operand s a (\<lambda>reg.
     let s1 = s\<lparr>sp := sp s - 4\<rparr> in
     attempt s1 (pack_u32_be (regs s1 ! reg)) (\<lambda>bytes.
     Inr (s1\<lparr>memory := py_slice_assign (memory s1) (sp s1) (sp s1 + 4) bytes\<rparr>)))"

definition op_pop :: "byte list \<Rightarrow> byte list \<Rightarrow> vm \<Rightarrow> outcome" where
  "op_pop a b s =
     reg_operand s a (\<lambda>reg.
     attempt s (read_u32_be (py_slice (memory s) (sp s) (sp s + 4))) (\<lambda>v.
     let s1 = s\<lparr>regs := (regs s)[reg := v]\<rparr> in
     Inr (s1\<lparr>sp := sp s1 + 4\<rparr>)))"

definition op_movsp :: "byte list \<Rightarrow> byte list \<Rightarrow> vm \<Rightarrow> outcome" where
  "op_movsp a b s = attempt s (read_s32_be a) (\<lambda>offset. Inr (s\<lparr>sp := sp s + offset\<rparr>))"

text \<open>Function calls.\<close>

definition op_call :: "byte list \<Rightarrow> byte list \<Rightarrow> vm \<Rightarrow> outcome" where
  "op_call a b s =
     attempt s (read_u32_be a) (\<lambda>addr.
     let s1 = s\<lparr>sp := sp s - 4\<rparr> in
     attempt s1 (pack_u32_be (pc s1)) (\<lambda>bytes.
     let s2 = s1\<lparr>memory := py_slice_assign (memory s1) (sp s1) (sp s1 + 4) bytes\<rparr> in
     Inr (s2\<lparr>pc := addr\<rparr>)))"

definition op_ret :: "byte list \<Rightarrow> byte list \<Rightarrow> vm \<Rightarrow> outcome" where
  "op_ret a b s =
     attempt s (read_u32_be (py_slice (memory s) (sp s) (sp s + 4))) (\<lambda>v.
     let s1 = s\<lparr>pc := v\<rparr> in
     Inr (s1\<lparr>sp := sp s1 + 4\<rparr>))"

text \<open>Comparisons.\<close>

definition set_acc :: "bool \<Rightarrow> vm \<Rightarrow> vm" where
  "set_acc cond s = s\<lparr>regs := (regs s)[ACC := (if cond then 0xFFFFFFFF else 0)]\<rparr>"

definition op_gt :: "byte list \<Rightarrow> byte list \<Rightarrow> vm \<Rightarrow> outcome" where
  "op_gt a b s =
     reg_operand s a (\<lambda>r.
     reg_operand s b (\<lambda>s'.
     Inr (set_acc (regs s ! r > regs s ! s') s)))"

definition op_lt :: "byte list \<Rightarrow> byte list \<Rightarrow> vm \<Rightarrow> outcome" where
  "op_lt a b s =
     reg_operand s a (\<lambda>r.
     reg_operand s b (\<lambda>s'.
     Inr (set_acc (regs s ! r < regs s ! s') s)))"

definition op_eq :: "byte list \<Rightarrow> byte list \<Rightarrow> vm \<Rightarrow> outcome" where
  "op_eq a b s =
     reg_operand s a (\<lambda>r.
     reg_operand s b (\<lambda>s'.
     Inr (set_acc (regs s ! r = regs s ! s') s)))"

definition op_ne :: "byte list \<Rightarrow> byte list \<Rightarrow> vm \<Rightarrow> outcome" where
  "op_ne a b s =
     reg_operand s a (\<lambda>r.
     reg_operand s b (\<lambda>s'.
     Inr (set_acc (regs s ! r \<noteq> regs s ! s') s)))"

definition op_ge :: "byte list \<Rightarrow> byte list \<Rightarrow> vm \<Rightarrow> outcome" where
  "op_ge a b s =
     reg_operand s a (\<lambda>r.
     reg_operand s b (\<lambda>s'.
     Inr (set_acc (regs s ! r \<ge> regs s ! s') s)))"

definition op_le :: "byte list \<Rightarrow> byte list \<Rightarrow> vm \<Rightarrow> outcome" where
  "op_le a b s =
     reg_operand s a (\<lambda>r.
     reg_operand s b (\<lambda>s'.
     Inr (set_acc (regs s ! r \<le> regs s ! s') s)))"

text \<open>Indirect memory.\<close>

definition op_ldi :: "byte list \<Rightarrow> byte list \<Rightarrow> vm \<Rightarrow> outcome" where
  "op_ldi a b s =
     reg_operand s a (\<lambda>addr_reg.
     reg_operand s b (\<lambda>dst_reg.
     let addr = regs s ! addr_reg in
     attempt s (read_u32_be (py_slice (memory s) addr (addr + 4))) (\<lambda>v.
     Inr (s\<lparr>regs := (regs s)[dst_reg := v]\<rparr>))))"

definition op_sti :: "byte list \<Rightarrow> byte list \<Rightarrow> vm \<Rightarrow> outcome" where
  "op_sti a b s =
     reg_operand s a (\<lambda>src_reg.
     reg_operand s b (\<lambda>addr_reg.
     let addr = regs s ! addr_reg in
     attempt s (pack_u32_be (regs s ! src_reg)) (\<lambda>bytes.
     Inr (s\<lparr>memory := py_slice_assign (memory s) addr (addr + 4) bytes\<rparr>))))"

subsection \<open>Dispatch table, fetch and the run loop\<close>

definition ops :: "(int \<times> (byte list \<Rightarrow> byte list \<Rightarrow> vm \<Rightarrow> outcome)) list" where
  "ops =
     [(0x0001, op_ld), (0x0002, op_lc), (0x0003, op_dr), (0x0004, op_cpy),
      (0x0005, op_or), (0x0006, op_and), (0x0007, op_xor), (0x0008, op_nand),
      (0x0009, op_nor), (0x000A, op_not), (0x000B, op_add), (0x000C, op_sub),
      (0x000D, op_mul), (0x000E, op_div), (0x000F, op_exp),
      (0x0020, op_jmp), (0x0021, op_jmr), (0x0022, op_cmp), (0x0023, op_cmr),
      (0x0030, op_psh), (0x0031, op_pop), (0x0032, op_movsp), (0x0033, op_call),
      (0x0034, op_ret),
      (0x0040, op_gt), (0x0041, op_lt), (0x0042, op_eq), (0x0043, op_ne),
      (0x0044, op_ge), (0x0045, op_le),
      (0x0050, op_ldi), (0x0051, op_sti)]"

text \<open>
  \<open>fetch\<close> returns \<open>None\<close> after clearing \<open>running\<close> when \<open>pc + 10\<close> is beyond the
  memory, and otherwise the opcode and the two operand fields cut out of the slice
  \<open>memory[pc:pc+10]\<close>; \<open>instr[0]\<close> and \<open>instr[1]\<close> raise on a slice that is too short.
\<close>

definition fetch :: "vm \<Rightarrow> (error \<times> vm) + (vm \<times> (int \<times> byte list \<times> byte list) option)" where
  "fetch s =
     (if pc s + 10 > int (length (memory s)) then Inr (s\<lparr>running := False\<rparr>, None)
      else let instr = py_slice (memory s) (pc s) (pc s + 10) in
        (case byte_at instr 0 of Inl e \<Rightarrow> Inl (e, s) | Inr i0 \<Rightarrow>
        (case byte_at instr 1 of Inl e \<Rightarrow> Inl (e, s) | Inr i1 \<Rightarrow>
           Inr (s, Some (push_bit 8 i0 OR i1, py_slice instr 2 6, py_slice instr 6 10)))))"

text \<open>
  One pass through the body of the \<open>while\<close> loop of \<open>run\<close>. After the \<open>break\<close> the
  flag \<open>running\<close> is already cleared by \<open>fetch\<close>.
\<close>

definition step :: "vm \<Rightarrow> outcome" where
  "step s =
     (case fetch s of
        Inl err \<Rightarrow> Inl err
      | Inr (s1, None) \<Rightarrow> Inr s1
      | Inr (s1, Some (opcode, a_bytes, b_bytes)) \<Rightarrow>
          let s2 = s1\<lparr>pc := pc s1 + 10\<rparr> in
          (case map_of ops opcode of
             None \<Rightarrow> Inr (s2\<lparr>printed := printed s2 @ [Unknown_opcode opcode (pc s2 - 10)],
                            running := False\<rparr>)
           | Some op_func \<Rightarrow> op_func a_bytes b_bytes s2))"

text \<open>
  The loop may run forever, so it is given fuel: \<open>None\<close> when the fuel is used up,
  \<open>Some (Inl _)\<close> when an exception leaves \<open>run\<close>, \<open>Some (Inr _)\<close> when the loop ends.
\<close>

fun run :: "nat \<Rightarrow> vm \<Rightarrow> outcome option" where
  "run n s =
     (if running s then
        (case n of 0 \<Rightarrow> None
         | Suc k \<Rightarrow> (case step s of Inl err \<Rightarrow> Some (Inl err) | Inr s' \<Rightarrow> run k s'))
      else Some (Inr s))"

declare run.simps [simp del]

text \<open>Loading a program: \<open>vm.memory[:len(prog)] = prog\<close>.\<close>

definition load_program :: "byte list \<Rightarrow> vm \<Rightarrow> vm" where
  "load_program prog s = s\<lparr>memory := prog @ drop (length prog) (memory s)\<rparr>"

subsection \<open>Notions used in the statements\<close>

text \<open>An unsigned 32-bit value.\<close>

definition is_u32 :: "int \<Rightarrow> bool" where
  "is_u32 v = (0 \<le> v \<and> v < 2 ^ 32)"

text \<open>
  The register file as the constructor builds it and every handler keeps it: 16 entries,
  each an unsigned 32-bit value.
\<close>

definition regs_ok :: "vm \<Rightarrow> bool" where
  "regs_ok s = (length (regs s) = NUM_REGS \<and> list_all (\<lambda>v. 0 \<le> v \<and> v < 2 ^ 32) (regs s))"

text \<open>
  The opcodes whose handler takes a register index from the last byte of field A, those
  that take one from field B, and those that write the accumulator.
\<close>

definition reg_in_a :: "int list" where
  "reg_in_a = [0x03, 0x04, 0x05, 0x06, 0x07, 0x08, 0x09, 0x0A, 0x0B, 0x0C, 0x0D, 0x0E, 0x0F,
               0x22, 0x23, 0x30, 0x31, 0x40, 0x41, 0x42, 0x43, 0x44, 0x45, 0x50, 0x51]"

definition reg_in_b :: "int list" where
  "reg_in_b = [0x01, 0x02, 0x04, 0x05, 0x06, 0x07, 0x08, 0x09, 0x0B, 0x0C, 0x0D, 0x0E, 0x0F,
               0x40, 0x41, 0x42, 0x43, 0x44, 0x45, 0x50, 0x51]"

definition acc_opcodes :: "int list" where
  "acc_opcodes = [0x05, 0x06, 0x07, 0x08, 0x09, 0x0A, 0x0B, 0x0C, 0x0D, 0x0E, 0x0F,
                  0x40, 0x41, 0x42, 0x43, 0x44, 0x45]"

text \<open>Register 15 replaced by a given value, in a state and in an outcome.\<close>

definition set_r15 :: "int \<Rightarrow> vm \<Rightarrow> vm" where
  "set_r15 v s = s\<lparr>regs := (regs s)[ACC := v]\<rparr>"

definition map_outcome :: "(vm \<Rightarrow> vm) \<Rightarrow> outcome \<Rightarrow> outcome" where
  "map_outcome f r = (case r of Inl (e, t) \<Rightarrow> Inl (e, f t) | Inr t \<Rightarrow> Inr (f t))"

subsection \<open>Example machines\<close>

text \<open>A freshly constructed machine whose first registers have been loaded.\<close>

definition vm_with_regs :: "nat \<Rightarrow> int list \<Rightarrow> vm" where
  "vm_with_regs memory_size rs =
     (init_vm memory_size)\<lparr>regs := rs @ drop (length rs) (regs (init_vm memory_size))\<rparr>"

text \<open>A 40-byte machine with CALL 20 at address 0 and RET at address 20.\<close>

definition call_ret_program :: "byte list" where
  "call_ret_program =
     [0, 0x33, 0, 0, 0, 20, 0, 0, 0, 0,
      0, 0, 0, 0, 0, 0, 0, 0, 0, 0,
      0, 0x34, 0, 0, 0, 0, 0, 0, 0, 0]"

definition call_ret_vm :: vm where
  "call_ret_vm = load_program call_ret_program (init_vm 40)"

definition after_call_vm :: vm where
  "after_call_vm = call_ret_vm\<lparr>pc := 20, sp := 36,
     memory := take 36 (memory call_ret_vm) @ [0, 0, 0, 10]\<rparr>"

text \<open>A 32-byte machine with JMR -4 at address 0.\<close>

definition jmr_program :: "byte list" where
  "jmr_program = [0, 0x21, 0xFF, 0xFF, 0xFF, 0xFC, 0, 0, 0, 0]"

definition jmr_vm :: vm where
  "jmr_vm = load_program jmr_program (init_vm 32)"

text \<open>A 32-byte machine with JMR -20 at address 0.\<close>

definition jmr_back_program :: "byte list" where
  "jmr_back_program = [0, 0x21, 0xFF, 0xFF, 0xFF, 0xEC, 0, 0, 0, 0]"

definition jmr_back_vm :: vm where
  "jmr_back_vm = load_program jmr_back_program (init_vm 32)"

text \<open>A 32-byte machine with LC 5 into register 0 in the bytes 21 to 30.\<close>

definition lc_at_top_vm :: vm where
  "lc_at_top_vm = (init_vm 32)\<lparr>memory := replicate 21 0 @ [0, 0x02, 0, 0, 0, 5, 0, 0, 0, 0, 0]\<rparr>"

text \<open>
  A 64-byte machine with JMR -31 at address 0 and CALL 20 in the bytes 43 to 52, where
  a fetch at \<open>pc = -21\<close> reads.
\<close>

definition neg_call_vm :: vm where
  "neg_call_vm = load_program
     ([0, 0x21, 0xFF, 0xFF, 0xFF, 0xE1, 0, 0, 0, 0] @ replicate 33 0
      @ [0, 0x33, 0, 0, 0, 20, 0, 0, 0, 0]) (init_vm 64)"

section \<open>Basic facts\<close>

subsection \<open>Masks, powers, packing and slices\<close>

lemma and_mask32: "(x::int) AND 0xFFFFFFFF = x mod 2 ^ 32"
proof -
  have "(0xFFFFFFFF::int) = mask 32" by (simp add: mask_eq_exp_minus_1)
  then show ?thesis by (simp only: flip: take_bit_eq_mask take_bit_eq_mod)
qed

lemma pow_mod_eq: "pow_mod base e m = base ^ e mod m"
proof (induction base e m rule: pow_mod.induct)
  case (1 base e m)
  show ?case
  proof (cases "e = 0")
    case True
    then show ?thesis by (simp add: pow_mod.simps)
  next
    case False
    have h: "pow_mod base (e div 2) m = base ^ (e div 2) mod m"
      using "1.IH" False by simp
    have sq: "(base ^ (e div 2) mod m) * (base ^ (e div 2) mod m) mod m = base ^ (2 * (e div 2)) mod m"
      by (simp add: mod_mult_eq power2_eq_square power_mult mult.commute flip: power_add mult_2)
    show ?thesis
    proof (cases "even e")
      case True
      then have "2 * (e div 2) = e" by simp
      with sq h False True show ?thesis
        by (subst pow_mod.simps) (simp add: Let_def)
    next
      case odd: False
      then have e: "Suc (2 * (e div 2)) = e" by simp
      have "base ^ (2 * (e div 2)) mod m * base mod m = base ^ Suc (2 * (e div 2)) mod m"
        by (simp add: mod_mult_left_eq mod_mult_right_eq mult.commute)
      with sq h False odd e show ?thesis
        by (subst pow_mod.simps) (simp add: Let_def)
    qed
  qed
qed

lemma uint_byte_of_int: "uint (word_of_int x :: byte) = x mod 256"
  by (simp add: uint_word_of_int)

lemma be_value_pack:
  assumes "0 \<le> v" "v < 2 ^ 32"
  shows "be_value [word_of_int (v div 2 ^ 24), word_of_int (v div 2 ^ 16),
                word_of_int (v div 2 ^ 8), word_of_int v] = v"
proof -
  define a where "a = v div 256"
  define b where "b = a div 256"
  define c where "c = b div 256"
  have b: "v div 65536 = b"
    unfolding b_def a_def by (simp add: zdiv_zmult2_eq)
  have c: "v div 16777216 = c"
    unfolding c_def b_def a_def by (simp add: zdiv_zmult2_eq)
  have c_small: "0 \<le> c" "c < 256"
    using assms c by auto
  then have cm: "c mod 256 = c" by simp
  have "v = 256 * a + v mod 256" "a = 256 * b + a mod 256" "b = 256 * c + b mod 256"
    unfolding a_def b_def c_def by simp_all
  then have "c * 16777216 + b mod 256 * 65536 + a mod 256 * 256 + v mod 256 = v"
    by linarith
  then show ?thesis
    by (simp add: be_value_def uint_byte_of_int b c cm flip: a_def)
qed

lemma read_pack_u32:
  assumes "pack_u32_be v = Inr bytes"
  shows "read_u32_be bytes = Inr v \<and> length bytes = 4"
proof -
  from assms have range: "0 \<le> v" "v < 2 ^ 32"
    by (auto simp: pack_u32_be_def split: if_splits)
  with assms have bytes: "bytes = [word_of_int (v div 2 ^ 24), word_of_int (v div 2 ^ 16),
                word_of_int (v div 2 ^ 8), word_of_int v]"
    by (simp add: pack_u32_be_def)
  have "be_value bytes = v"
    unfolding bytes using range by (rule be_value_pack)
  moreover have "length bytes = 4"
    unfolding bytes by simp
  ultimately show ?thesis
    by (simp add: read_u32_be_def)
qed

lemma slice_index_inside: "0 \<le> i \<Longrightarrow> i \<le> int n \<Longrightarrow> slice_index n i = nat i"
  by (simp add: slice_index_def)

lemma slice_index_beyond: "int n \<le> i \<Longrightarrow> slice_index n i = n"
  by (auto simp: slice_index_def)

lemma py_slice_short:
  "0 \<le> i \<Longrightarrow> int (length xs) < i + 4 \<Longrightarrow> length (py_slice xs i (i + 4)) < 4"
  by (auto simp: py_slice_def slice_index_def Let_def)

lemma py_slice_assign_inside:
  "0 \<le> i \<Longrightarrow> i + int (length ys) \<le> int (length xs) \<Longrightarrow>
   py_slice_assign xs i (i + int (length ys)) ys = take (nat i) xs @ ys @ drop (nat i + length ys) xs"
  by (simp add: py_slice_assign_def slice_index_inside Let_def nat_add_distrib max_def)

lemma py_slice_of_assign:
  assumes "0 \<le> i" "i + int (length ys) \<le> int (length xs)"
  shows "py_slice (py_slice_assign xs i (i + int (length ys)) ys) i (i + int (length ys)) = ys"
proof -
  have len: "length (take (nat i) xs @ ys @ drop (nat i + length ys) xs) = length xs"
    using assms by auto
  have lo: "slice_index (length xs) i = nat i"
    using assms by (simp add: slice_index_inside)
  have hi: "slice_index (length xs) (i + int (length ys)) = nat i + length ys"
    using assms by (simp add: slice_index_inside nat_add_distrib)
  have "take (length ys) (drop (nat i) (take (nat i) xs @ ys @ drop (nat i + length ys) xs)) = ys"
    using assms by simp
  then show ?thesis
    using assms by (simp add: py_slice_assign_inside py_slice_def Let_def lo hi len del: length_append length_drop length_take)
qed

lemma length_py_slice_assign_inside:
  "0 \<le> i \<Longrightarrow> i + int (length ys) \<le> int (length xs) \<Longrightarrow>
   length (py_slice_assign xs i (i + int (length ys)) ys) = length xs"
  by (auto simp: py_slice_assign_inside)

subsection \<open>Handlers on well-formed operand fields\<close>

lemma attempt_Inr: "attempt s (Inr v) f = f v"
  by (simp add: attempt_def)

lemma attempt_Inl: "attempt s (Inl e) f = Inl (e, s)"
  by (simp add: attempt_def)

lemma reg_operand_4:
  "length field = 4 \<Longrightarrow> reg_operand s field f = f (nat (clamp_reg (uint (field ! 3))))"
  by (simp add: reg_operand_def byte_at_def attempt_def)

lemma clamp_reg_le: "0 \<le> r \<Longrightarrow> nat (clamp_reg r) \<le> 14"
  by (simp add: clamp_reg_def)

lemma reg_index_neq_ACC: "nat (clamp_reg r) \<noteq> ACC"
  by (simp add: clamp_reg_def ACC_def)

lemma u32_less_iff:
  "0 \<le> x \<Longrightarrow> x < 2 ^ 32 \<Longrightarrow> 0 \<le> y \<Longrightarrow> y < 2 ^ 32 \<Longrightarrow>
   ((word_of_int x :: 32 word) < word_of_int y) = (x < y)"
  by (simp add: word_less_def uint_word_of_int take_bit_eq_mod)

lemma u32_le_iff:
  "0 \<le> x \<Longrightarrow> x < 2 ^ 32 \<Longrightarrow> 0 \<le> y \<Longrightarrow> y < 2 ^ 32 \<Longrightarrow>
   ((word_of_int x :: 32 word) \<le> word_of_int y) = (x \<le> y)"
  by (simp add: word_le_def uint_word_of_int take_bit_eq_mod)

lemma u32_eq_iff:
  "0 \<le> x \<Longrightarrow> x < 2 ^ 32 \<Longrightarrow> 0 \<le> y \<Longrightarrow> y < 2 ^ 32 \<Longrightarrow>
   ((word_of_int x :: 32 word) = word_of_int y) = (x = y)"
  by (simp add: word_of_int_eq_iff take_bit_eq_mod)

lemma regs_ok_nth:
  "regs_ok s \<Longrightarrow> i < 16 \<Longrightarrow> 0 \<le> regs s ! i \<and> regs s ! i < 2 ^ 32"
  by (simp add: regs_ok_def NUM_REGS_def list_all_length)

lemma regs_vm_with_regs_2:
  "regs (vm_with_regs n [x, y]) = [x, y, 0, 0, 0, 0, 0, 0, 0, 0, 0, 0, 0, 0, 0, 0]"
  by (simp add: vm_with_regs_def init_vm_def NUM_REGS_def numeral_eq_Suc)

subsection \<open>Writing a word and reading it back\<close>

lemma length_pack_u32: "pack_u32_be v = Inr bytes \<Longrightarrow> length bytes = 4"
  by (simp add: read_pack_u32)

lemma pack_u32_be_ok: "0 \<le> v \<Longrightarrow> v < 2 ^ 32 \<Longrightarrow> \<exists>bytes. pack_u32_be v = Inr bytes"
  by (simp add: pack_u32_be_def)

lemma read_back_word:
  assumes "pack_u32_be v = Inr bytes" and "0 \<le> i" and "i + 4 \<le> int (length xs)"
  shows "read_u32_be (py_slice (py_slice_assign xs i (i + 4) bytes) i (i + 4)) = Inr v"
    and "length (py_slice_assign xs i (i + 4) bytes) = length xs"
proof -
  have len: "int (length bytes) = 4"
    using assms(1) by (simp add: read_pack_u32)
  have "py_slice (py_slice_assign xs i (i + int (length bytes)) bytes) i (i + int (length bytes)) = bytes"
    by (rule py_slice_of_assign) (use assms(2,3) len in simp_all)
  then show "read_u32_be (py_slice (py_slice_assign xs i (i + 4) bytes) i (i + 4)) = Inr v"
    using assms(1) by (simp add: len read_pack_u32)
  have "length (py_slice_assign xs i (i + int (length bytes)) bytes) = length xs"
    by (rule length_py_slice_assign_inside) (use assms(2,3) len in simp_all)
  then show "length (py_slice_assign xs i (i + 4) bytes) = length xs"
    by (simp add: len)
qed

subsection \<open>One cycle of the loop\<close>

lemma fetch_SomeD:
  "fetch s = Inr (s1, Some x) \<Longrightarrow> s1 = s \<and> pc s + 10 \<le> int (length (memory s))"
  by (auto simp: fetch_def Let_def split: if_splits sum.splits)

lemma step_dispatch:
  assumes "fetch s = Inr (s1, Some (opcode, a, b))" and "map_of ops opcode = Some h"
  shows "step s = h a b (s\<lparr>pc := pc s + 10\<rparr>)"
proof -
  from assms(1) have "s1 = s" by (simp add: fetch_SomeD)
  with assms show ?thesis by (simp add: step_def)
qed

lemma step_unknown:
  assumes "fetch s = Inr (s1, Some (opcode, a, b))" and "map_of ops opcode = None"
  shows "step s = Inr (s\<lparr>pc := pc s + 10,
           printed := printed s @ [Unknown_opcode opcode (pc s)], running := False\<rparr>)"
proof -
  from assms(1) have "s1 = s" by (simp add: fetch_SomeD)
  with assms show ?thesis by (simp add: step_def)
qed

lemma ops_call: "map_of ops 0x33 = Some op_call"
  by (simp add: ops_def)

lemma ops_ret: "map_of ops 0x34 = Some op_ret"
  by (simp add: ops_def)

subsection \<open>Fetching\<close>

lemma fetch_end_of_memory:
  "int (length (memory s)) < pc s + 10 \<Longrightarrow> fetch s = Inr (s\<lparr>running := False\<rparr>, None)"
  by (simp add: fetch_def)

lemma fetch_two_bytes:
  assumes "pc s + 10 \<le> int (length (memory s))"
    and "instr = py_slice (memory s) (pc s) (pc s + 10)" and "2 \<le> length instr"
  shows "fetch s = Inr (s, Some (push_bit 8 (uint (instr ! 0)) OR uint (instr ! 1),
                               py_slice instr 2 6, py_slice instr 6 10))"
  using assms by (auto simp: fetch_def byte_at_def Let_def)

lemma fetch_short_slice:
  assumes "pc s + 10 \<le> int (length (memory s))"
    and "length (py_slice (memory s) (pc s) (pc s + 10)) < 2"
  shows "fetch s = Inl (IndexError, s)"
  using assms by (auto simp: fetch_def byte_at_def Let_def)

lemma py_slice_inside:
  "0 \<le> i \<Longrightarrow> i \<le> j \<Longrightarrow> j \<le> int (length xs) \<Longrightarrow>
   py_slice xs i j = take (nat (j - i)) (drop (nat i) xs)"
  by (simp add: py_slice_def slice_index_inside Let_def nat_diff_distrib)

lemma length_py_slice_inside:
  "0 \<le> i \<Longrightarrow> i \<le> j \<Longrightarrow> j \<le> int (length xs) \<Longrightarrow> length (py_slice xs i j) = nat (j - i)"
  by (auto simp: py_slice_inside)

lemma fetch_nonneg_pc:
  assumes "0 \<le> pc s" and "pc s + 10 \<le> int (length (memory s))"
  shows "\<exists>opcode a b. fetch s = Inr (s, Some (opcode, a, b)) \<and> length a = 4 \<and> length b = 4"
proof -
  define instr where "instr = py_slice (memory s) (pc s) (pc s + 10)"
  have len: "length instr = 10"
    unfolding instr_def using assms by (simp add: length_py_slice_inside)
  have "length (py_slice instr 2 6) = 4" "length (py_slice instr 6 10) = 4"
    using len by (simp_all add: length_py_slice_inside)
  moreover have "fetch s = Inr (s, Some (push_bit 8 (uint (instr ! 0)) OR uint (instr ! 1),
                               py_slice instr 2 6, py_slice instr 6 10))"
    using assms(2) instr_def by (rule fetch_two_bytes) (simp add: len)
  ultimately show ?thesis by blast
qed

subsection \<open>The handlers of the table\<close>

lemma ops_handlers:
  assumes "map_of ops opcode = Some h"
  shows "h \<in> {op_ld, op_lc, op_dr, op_cpy, op_or, op_and, op_xor, op_nand, op_nor, op_not,
              op_add, op_sub, op_mul, op_div, op_exp, op_jmp, op_jmr, op_cmp, op_cmr,
              op_psh, op_pop, op_movsp, op_call, op_ret, op_gt, op_lt, op_eq, op_ne, op_ge,
              op_le, op_ldi, op_sti}"
  using map_of_SomeD [OF assms] by (auto simp: ops_def)

lemmas handler_defs =
  op_ld_def op_lc_def op_dr_def op_cpy_def op_or_def op_and_def op_xor_def op_nand_def
  op_nor_def op_not_def op_add_def op_sub_def op_mul_def op_div_def op_exp_def op_jmp_def
  op_jmr_def op_cmp_def op_cmr_def op_psh_def op_pop_def op_movsp_def op_call_def op_ret_def
  op_gt_def op_lt_def op_eq_def op_ne_def op_ge_def op_le_def op_ldi_def op_sti_def

lemma handler_keeps_running:
  assumes "map_of ops opcode = Some h"
  shows "(h a b s = Inr t \<longrightarrow> running t = running s)
       \<and> (h a b s = Inl (e, t) \<longrightarrow> running t = running s)"
  using ops_handlers [OF assms]
  by (auto simp: handler_defs attempt_def reg_operand_def set_acc_def Let_def
      split: sum.splits if_splits)

lemma run_halted: "\<not> running s \<Longrightarrow> run n s = Some (Inr s)"
  by (simp add: run.simps)

lemma run_Suc:
  "running s \<Longrightarrow> run (Suc n) s = (case step s of Inl err \<Rightarrow> Some (Inl err) | Inr s' \<Rightarrow> run n s')"
  by (simp add: run.simps)

lemma handler_keeps_printed:
  assumes "map_of ops opcode = Some h"
  shows "(h a b s = Inr t \<longrightarrow> printed t = printed s)
       \<and> (h a b s = Inl (e, t) \<longrightarrow> printed t = printed s)"
  using ops_handlers [OF assms]
  by (auto simp: handler_defs attempt_def reg_operand_def set_acc_def Let_def
      split: sum.splits if_splits)

subsection \<open>Slices with a negative lower bound\<close>

lemma py_slice_wrapped:
  assumes "- int (length xs) \<le> i" and "i + int k < 0"
  shows "py_slice xs i (i + int k) = take k (drop (nat (int (length xs) + i)) xs)"
proof -
  have lo: "slice_index (length xs) i = nat (int (length xs) + i)"
    using assms by (simp add: slice_index_def add.commute)
  have hi: "slice_index (length xs) (i + int k) = nat (int (length xs) + i) + k"
    using assms by (simp add: slice_index_def nat_add_distrib algebra_simps)
  show ?thesis
    by (simp add: py_slice_def lo hi Let_def del: length_drop)
qed

lemma py_slice_empty_across_zero:
  assumes "i < 0" and "- int (length xs) \<le> i" and "0 \<le> j" and "j \<le> int (length xs) + i"
  shows "py_slice xs i j = []"
proof -
  have "slice_index (length xs) i = nat (int (length xs) + i)"
    using assms by (simp add: slice_index_def add.commute)
  moreover have "slice_index (length xs) j = nat j"
    using assms by (simp add: slice_index_def)
  ultimately show ?thesis
    using assms by (simp add: py_slice_def Let_def)
qed

subsection \<open>Slices that reach beyond the end\<close>

lemma read_beyond_end:
  assumes "0 \<le> i" and "int (length xs) < i + 4"
  shows "read_u32_be (py_slice xs i (i + 4)) = Inl StructError"
  using py_slice_short [OF assms] by (simp add: read_u32_be_def)

lemma py_slice_assign_beyond_end:
  assumes "0 \<le> i" and "int (length xs) < i + 4"
  shows "py_slice_assign xs i (i + 4) ys = take (nat i) xs @ ys"
proof -
  have hi: "slice_index (length xs) (i + 4) = length xs"
    using assms by (simp add: slice_index_beyond)
  have lo: "slice_index (length xs) i = min (nat i) (length xs)"
    using assms by (auto simp: slice_index_def)
  have "take (min (nat i) (length xs)) xs = take (nat i) xs"
    by (simp add: min_def)
  then show ?thesis
    by (simp add: py_slice_assign_def hi lo Let_def max_def)
qed

lemma write_beyond_end_grows:
  assumes "0 \<le> i" and "int (length xs) < i + 4" and "length ys = 4"
  shows "length xs < length (take (nat i) xs @ ys)"
  using assms by (auto simp: min_def)

subsection \<open>Register operands and register 15\<close>

lemma reg_operand_15:
  "length p = 3 \<Longrightarrow> reg_operand s (p @ [15]) f = reg_operand s (p @ [14]) f"
  by (simp add: reg_operand_def byte_at_def clamp_reg_def nth_append attempt_def)

lemma index_15_as_14_in_a:
  assumes "map_of ops opcode = Some h" and "opcode \<in> set reg_in_a" and "length p = 3"
  shows "h (p @ [15]) b s = h (p @ [14]) b s"
  using assms(1,2)
  by (auto simp: reg_in_a_def ops_def handler_defs reg_operand_15 [OF assms(3)])

lemma index_15_as_14_in_b:
  assumes "map_of ops opcode = Some h" and "opcode \<in> set reg_in_b" and "length p = 3"
  shows "h a (p @ [15]) s = h a (p @ [14]) s"
  using assms(1,2)
  by (auto simp: reg_in_b_def ops_def handler_defs reg_operand_15 [OF assms(3)])

lemma update_below_r15:
  "(xs[ACC := v])[nat (clamp_reg r) := y, ACC := w] = xs[nat (clamp_reg r) := y, ACC := w]"
proof -
  have "(xs[ACC := v])[nat (clamp_reg r) := y] = (xs[nat (clamp_reg r) := y])[ACC := v]"
    using reg_index_neq_ACC [of r] by (simp add: list_update_swap)
  then show ?thesis by simp
qed

lemma nth_below_r15: "(xs[ACC := v]) ! nat (clamp_reg r) = xs ! nat (clamp_reg r)"
  using reg_index_neq_ACC [of r] by simp

lemma nth_r15_update_below: "(xs[nat (clamp_reg r) := y]) ! ACC = xs ! ACC"
  using reg_index_neq_ACC [of r] by simp

lemma only_acc_family_writes_r15:
  assumes "map_of ops opcode = Some h" and "opcode \<notin> set acc_opcodes"
  shows "(h a b s = Inr t \<longrightarrow> regs t ! ACC = regs s ! ACC)
       \<and> (h a b s = Inl (e, t) \<longrightarrow> regs t ! ACC = regs s ! ACC)"
  using map_of_SomeD [OF assms(1)] assms(2)
  by (auto simp: ops_def acc_opcodes_def handler_defs attempt_def reg_operand_def Let_def
      nth_r15_update_below split: sum.splits if_splits)

lemma r15_never_read:
  assumes "map_of ops opcode = Some h"
  shows "map_outcome (set_r15 w) (h a b (set_r15 v s)) = map_outcome (set_r15 w) (h a b s)"
  using ops_handlers [OF assms]
  by (auto simp: handler_defs attempt_def reg_operand_def set_acc_def Let_def
      map_outcome_def set_r15_def nth_below_r15 update_below_r15 split: sum.splits)

subsection \<open>The register file stays well formed\<close>

text \<open>
  Every handler, and so every cycle, keeps the 16 registers unsigned 32-bit values,
  whether it returns or raises; the constructor and the loader establish it.
\<close>

lemma be_value_range: "0 \<le> be_value b \<and> be_value b < 2 ^ 32"
proof -
  have "0 \<le> uint w \<and> uint w \<le> 255" for w :: byte
    using uint_bounded [of w] by simp
  from this [of "b ! 0"] this [of "b ! 1"] this [of "b ! 2"] this [of "b ! 3"]
  show ?thesis by (simp add: be_value_def)
qed

lemma read_u32_be_range: "read_u32_be b = Inr v \<Longrightarrow> 0 \<le> v \<and> v < 2 ^ 32"
  using be_value_range [of b] by (auto simp: read_u32_be_def split: if_splits)

lemma regs_ok_update:
  assumes "regs_ok s" and "0 \<le> v" and "v < 2 ^ 32"
  shows "regs_ok (s\<lparr>regs := (regs s)[i := v]\<rparr>)"
proof -
  have "set ((regs s)[i := v]) \<subseteq> insert v (set (regs s))"
    by (rule set_update_subset_insert)
  then show ?thesis
    using assms by (auto simp: regs_ok_def list_all_iff)
qed

lemma regs_ok_operand:
  "regs_ok s \<Longrightarrow> 0 \<le> regs s ! nat (clamp_reg (uint (w :: byte)))
     \<and> regs s ! nat (clamp_reg (uint w)) < 2 ^ 32"
  by (rule regs_ok_nth) (simp_all add: clamp_reg_def)

lemma regs_ok_cong: "regs t = regs s \<Longrightarrow> regs_ok t = regs_ok s"
  by (simp add: regs_ok_def)

lemma mask32_range: "0 \<le> (x::int) AND 0xFFFFFFFF \<and> x AND 0xFFFFFFFF < 2 ^ 32"
  unfolding and_mask32 by simp

lemma or_range:
  "0 \<le> (x::int) \<Longrightarrow> x < 2 ^ 32 \<Longrightarrow> 0 \<le> y \<Longrightarrow> y < 2 ^ 32 \<Longrightarrow> 0 \<le> x OR y \<and> x OR y < 2 ^ 32"
  using OR_upper [of x 32 y] by simp

lemma xor_range:
  "0 \<le> (x::int) \<Longrightarrow> x < 2 ^ 32 \<Longrightarrow> 0 \<le> y \<Longrightarrow> y < 2 ^ 32 \<Longrightarrow> 0 \<le> x XOR y \<and> x XOR y < 2 ^ 32"
  using XOR_upper [of x 32 y] by simp

lemma and_range:
  "0 \<le> (x::int) \<Longrightarrow> x < 2 ^ 32 \<Longrightarrow> 0 \<le> y \<Longrightarrow> 0 \<le> x AND y \<and> x AND y < 2 ^ 32"
  using AND_upper1 [of x y] by simp

lemma div_range:
  "0 \<le> (x::int) \<Longrightarrow> x < 2 ^ 32 \<Longrightarrow> 0 \<le> x div max y 1 \<and> x div max y 1 < 2 ^ 32"
proof -
  assume x: "0 \<le> x" "x < 2 ^ 32"
  have "x div max y 1 \<le> x div 1"
    using x by (intro zdiv_mono2) simp_all
  then have "x div max y 1 \<le> x" by simp
  moreover have "0 \<le> x div max y 1"
    using x by (simp add: pos_imp_zdiv_nonneg_iff)
  ultimately show ?thesis using x by simp
qed

lemma py_pow3_range: "py_pow3 x y (2 ^ 32) = Inr v \<Longrightarrow> 0 \<le> v \<and> v < 2 ^ 32"
  by (auto simp: py_pow3_def pow_mod_eq split: if_splits)

lemma is_u32_simps:
  "is_u32 (be_value b)"
  "is_u32 (x AND 0xFFFFFFFF)"
  "is_u32 0xFFFFFFFF"
  "is_u32 0"
  "is_u32 x \<Longrightarrow> is_u32 y \<Longrightarrow> is_u32 (x OR y)"
  "is_u32 x \<Longrightarrow> is_u32 y \<Longrightarrow> is_u32 (x XOR y)"
  "is_u32 x \<Longrightarrow> is_u32 y \<Longrightarrow> is_u32 (x AND y)"
  "is_u32 x \<Longrightarrow> is_u32 (x div max y 1)"
  "is_u32 (pow_mod x n 4294967296)"
  unfolding is_u32_def
  using be_value_range [of b] mask32_range [of x] or_range [of x y] xor_range [of x y]
    and_range [of x y] div_range [of x y]
  by (simp_all add: pow_mod_eq)

lemma is_u32_operand: "regs_ok s \<Longrightarrow> is_u32 (regs s ! nat (clamp_reg (uint (w :: byte))))"
  unfolding is_u32_def by (rule regs_ok_operand)

lemma regs_ok_update_u32:
  "regs_ok s \<Longrightarrow> is_u32 v \<Longrightarrow> regs_ok (s\<lparr>regs := (regs s)[i := v]\<rparr>)"
  unfolding is_u32_def by (rule regs_ok_update) simp_all

lemma regs_ok_other_fields:
  "regs_ok (s\<lparr>memory := m\<rparr>) = regs_ok s"
  "regs_ok (s\<lparr>pc := p\<rparr>) = regs_ok s"
  "regs_ok (s\<lparr>sp := q\<rparr>) = regs_ok s"
  "regs_ok (s\<lparr>running := r\<rparr>) = regs_ok s"
  "regs_ok (s\<lparr>printed := d\<rparr>) = regs_ok s"
  by (simp_all add: regs_ok_def)

lemma handler_regs_ok:
  assumes "map_of ops opcode = Some h" and "regs_ok s"
  shows "(h a b s = Inr t \<longrightarrow> regs_ok t) \<and> (h a b s = Inl (e, t) \<longrightarrow> regs_ok t)"
  using ops_handlers [OF assms(1)] assms(2)
  by (auto simp: handler_defs attempt_def reg_operand_def byte_at_def set_acc_def Let_def
      read_u32_be_def read_s32_be_def py_pow3_def
      is_u32_simps is_u32_operand regs_ok_update_u32 regs_ok_other_fields
      split: sum.splits if_splits)

lemma init_vm_regs_ok: "regs_ok (init_vm n)"
  by (simp add: regs_ok_def init_vm_def NUM_REGS_def list_all_iff)

lemma load_program_regs_ok: "regs_ok (load_program prog s) = regs_ok s"
  by (simp add: load_program_def regs_ok_other_fields)

lemma step_regs_ok:
  assumes "regs_ok s"
  shows "(step s = Inr t \<longrightarrow> regs_ok t) \<and> (step s = Inl (e, t) \<longrightarrow> regs_ok t)"
proof (cases "fetch s")
  case (Inl err)
  then have "err = (IndexError, s)"
    by (auto simp: fetch_def Let_def byte_at_def split: if_splits sum.splits)
  with Inl assms show ?thesis by (auto simp: step_def)
next
  case (Inr r)
  obtain s1 x where r: "r = (s1, x)" by (cases r)
  show ?thesis
  proof (cases x)
    case None
    with Inr r have "s1 = s\<lparr>running := False\<rparr>"
      by (auto simp: fetch_def Let_def split: if_splits sum.splits)
    with Inr r None assms show ?thesis
      by (auto simp: step_def regs_ok_other_fields)
  next
    case (Some instr)
    obtain opcode a b where instr: "instr = (opcode, a, b)" by (cases instr)
    have f: "fetch s = Inr (s1, Some (opcode, a, b))"
      using Inr r Some instr by simp
    have ok: "regs_ok (s\<lparr>pc := pc s + 10\<rparr>)"
      using assms by (simp add: regs_ok_other_fields)
    show ?thesis
    proof (cases "map_of ops opcode")
      case None
      with assms show ?thesis
        by (auto simp: step_unknown [OF f None] regs_ok_def)
    next
      case (Some h)
      show ?thesis
        using handler_regs_ok [OF Some ok, of a b] by (simp add: step_dispatch [OF f Some])
    qed
  qed
qed

section \<open>The claims\<close>

subsection \<open>Comparisons\<close>

text \<open>
  Claim C9. For every pair of register values, equal ones included, each of GT, LT, EQ,
  NE, GE and LE returns normally and writes to the accumulator exactly 0xFFFFFFFF when
  the comparison of the two values as unsigned 32-bit words holds and exactly 0 when it
  does not; nothing else in the state changes.
\<close>

theorem comparisons_write_all_ones_or_zero:
  assumes "regs_ok s" and "length a = 4" and "length b = 4"
    and "x = regs s ! nat (clamp_reg (uint (a ! 3)))"
    and "y = regs s ! nat (clamp_reg (uint (b ! 3)))"
    and "u = (word_of_int x :: 32 word)" and "v = (word_of_int y :: 32 word)"
  shows "op_gt a b s = Inr (s\<lparr>regs := (regs s)[ACC := (if u > v then 0xFFFFFFFF else 0)]\<rparr>)
       \<and> op_lt a b s = Inr (s\<lparr>regs := (regs s)[ACC := (if u < v then 0xFFFFFFFF else 0)]\<rparr>)
       \<and> op_eq a b s = Inr (s\<lparr>regs := (regs s)[ACC := (if u = v then 0xFFFFFFFF else 0)]\<rparr>)
       \<and> op_ne a b s = Inr (s\<lparr>regs := (regs s)[ACC := (if u \<noteq> v then 0xFFFFFFFF else 0)]\<rparr>)
       \<and> op_ge a b s = Inr (s\<lparr>regs := (regs s)[ACC := (if u \<ge> v then 0xFFFFFFFF else 0)]\<rparr>)
       \<and> op_le a b s = Inr (s\<lparr>regs := (regs s)[ACC := (if u \<le> v then 0xFFFFFFFF else 0)]\<rparr>)
       \<and> (\<forall>h \<in> {op_gt, op_lt, op_eq, op_ne, op_ge, op_le}.
            \<exists>s'. h a b s = Inr s' \<and> (regs s' ! ACC = 0xFFFFFFFF \<or> regs s' ! ACC = 0))"
proof -
  have ia: "nat (clamp_reg (uint (a ! 3))) < 16" and ib: "nat (clamp_reg (uint (b ! 3))) < 16"
    by (simp_all add: clamp_reg_def)
  from regs_ok_nth [OF assms(1) ia] regs_ok_nth [OF assms(1) ib] assms(4,5)
  have range: "0 \<le> x" "x < 2 ^ 32" "0 \<le> y" "y < 2 ^ 32"
    by simp_all
  have lt: "(u < v) = (x < y)" and gt: "(v < u) = (y < x)"
    and le: "(u \<le> v) = (x \<le> y)" and ge: "(v \<le> u) = (y \<le> x)" and eq: "(u = v) = (x = y)"
    unfolding assms(6,7) using range
    by (simp_all only: u32_less_iff u32_le_iff u32_eq_iff)
  have len: "ACC < length (regs s)"
    using assms(1) by (simp add: regs_ok_def NUM_REGS_def ACC_def)
  have 1: "op_gt a b s = Inr (s\<lparr>regs := (regs s)[ACC := (if u > v then 0xFFFFFFFF else 0)]\<rparr>)"
    by (simp add: op_gt_def reg_operand_4 assms(2,3) set_acc_def gt flip: assms(4,5))
  have 2: "op_lt a b s = Inr (s\<lparr>regs := (regs s)[ACC := (if u < v then 0xFFFFFFFF else 0)]\<rparr>)"
    by (simp add: op_lt_def reg_operand_4 assms(2,3) set_acc_def lt flip: assms(4,5))
  have 3: "op_eq a b s = Inr (s\<lparr>regs := (regs s)[ACC := (if u = v then 0xFFFFFFFF else 0)]\<rparr>)"
    by (simp add: op_eq_def reg_operand_4 assms(2,3) set_acc_def eq flip: assms(4,5))
  have 4: "op_ne a b s = Inr (s\<lparr>regs := (regs s)[ACC := (if u \<noteq> v then 0xFFFFFFFF else 0)]\<rparr>)"
    by (simp add: op_ne_def reg_operand_4 assms(2,3) set_acc_def eq flip: assms(4,5))
  have 5: "op_ge a b s = Inr (s\<lparr>regs := (regs s)[ACC := (if u \<ge> v then 0xFFFFFFFF else 0)]\<rparr>)"
    by (simp add: op_ge_def reg_operand_4 assms(2,3) set_acc_def ge flip: assms(4,5))
  have 6: "op_le a b s = Inr (s\<lparr>regs := (regs s)[ACC := (if u \<le> v then 0xFFFFFFFF else 0)]\<rparr>)"
    by (simp add: op_le_def reg_operand_4 assms(2,3) set_acc_def le flip: assms(4,5))
  have 7: "\<forall>h \<in> {op_gt, op_lt, op_eq, op_ne, op_ge, op_le}.
            \<exists>s'. h a b s = Inr s' \<and> (regs s' ! ACC = 0xFFFFFFFF \<or> regs s' ! ACC = 0)"
    using len by (simp add: 1 2 3 4 5 6)
  from 1 2 3 4 5 6 7 show ?thesis by blast
qed

theorem comparisons_write_all_ones_or_zero_witness:
  "regs_ok (vm_with_regs 32 [5, 5])
   \<and> op_gt [0, 0, 0, 0] [0, 0, 0, 1] (vm_with_regs 32 [5, 5])
       = Inr ((vm_with_regs 32 [5, 5])\<lparr>regs := (regs (vm_with_regs 32 [5, 5]))[ACC := 0]\<rparr>)
   \<and> op_ge [0, 0, 0, 0] [0, 0, 0, 1] (vm_with_regs 32 [5, 5])
       = Inr ((vm_with_regs 32 [5, 5])\<lparr>regs := (regs (vm_with_regs 32 [5, 5]))[ACC := 0xFFFFFFFF]\<rparr>)"
proof -
  have ok: "regs_ok (vm_with_regs 32 [5, 5])"
    by (simp add: regs_ok_def regs_vm_with_regs_2 NUM_REGS_def)
  have x: "5 = regs (vm_with_regs 32 [5, 5]) ! nat (clamp_reg (uint ([0, 0, 0, 0 :: byte] ! 3)))"
    by (simp add: regs_vm_with_regs_2 clamp_reg_def)
  have y: "5 = regs (vm_with_regs 32 [5, 5]) ! nat (clamp_reg (uint ([0, 0, 0, 1 :: byte] ! 3)))"
    by (simp add: regs_vm_with_regs_2 clamp_reg_def)
  show ?thesis
    using ok comparisons_write_all_ones_or_zero [OF ok _ _ x y refl refl]
    by simp
qed

subsection \<open>Arithmetic\<close>

text \<open>
  Claim C3. For all values x and y of the two operand registers (a register value is
  never negative), DIV returns normally and writes to the accumulator the floor division
  of x by y, with a divisor 0 replaced by 1; so the result with divisor 0 is the result
  with divisor 1, namely x.
\<close>

theorem div_floor_with_zero_divisor_as_one:
  assumes "length a = 4" and "length b = 4"
    and "x = regs s ! nat (clamp_reg (uint (a ! 3)))"
    and "y = regs s ! nat (clamp_reg (uint (b ! 3)))"
    and "0 \<le> y"
  shows "op_div a b s = Inr (s\<lparr>regs := (regs s)[ACC := x div (if y = 0 then 1 else y)]\<rparr>)
       \<and> (y = 0 \<or> y = 1 \<longrightarrow> op_div a b s = Inr (s\<lparr>regs := (regs s)[ACC := x]\<rparr>))"
proof -
  have "max y 1 = (if y = 0 then 1 else y)"
    using assms(5) by auto
  then have "op_div a b s = Inr (s\<lparr>regs := (regs s)[ACC := x div (if y = 0 then 1 else y)]\<rparr>)"
    by (simp add: op_div_def reg_operand_4 assms(1,2) flip: assms(3,4))
  then show ?thesis by auto
qed

theorem div_floor_with_zero_divisor_as_one_witness:
  "op_div [0, 0, 0, 0] [0, 0, 0, 1] (vm_with_regs 32 [7, 0])
     = Inr ((vm_with_regs 32 [7, 0])\<lparr>regs := (regs (vm_with_regs 32 [7, 0]))[ACC := 7]\<rparr>)
   \<and> op_div [0, 0, 0, 0] [0, 0, 0, 1] (vm_with_regs 32 [7, 1])
     = Inr ((vm_with_regs 32 [7, 1])\<lparr>regs := (regs (vm_with_regs 32 [7, 1]))[ACC := 7]\<rparr>)
   \<and> op_div [0, 0, 0, 0] [0, 0, 0, 1] (vm_with_regs 32 [7, 2])
     = Inr ((vm_with_regs 32 [7, 2])\<lparr>regs := (regs (vm_with_regs 32 [7, 2]))[ACC := 3]\<rparr>)"
  using div_floor_with_zero_divisor_as_one [of "[0, 0, 0, 0]" "[0, 0, 0, 1]" 7 "vm_with_regs 32 [7, 0]" 0]
    div_floor_with_zero_divisor_as_one [of "[0, 0, 0, 0]" "[0, 0, 0, 1]" 7 "vm_with_regs 32 [7, 1]" 1]
    div_floor_with_zero_divisor_as_one [of "[0, 0, 0, 0]" "[0, 0, 0, 1]" 7 "vm_with_regs 32 [7, 2]" 2]
  by (simp add: regs_vm_with_regs_2 clamp_reg_def)

text \<open>
  Claim C4. For all values x and y of the two operand registers, ADD, SUB and MUL return
  normally and write \<open>(x op y) mod 2^32\<close> to the accumulator, and EXP writes
  \<open>x^y mod 2^32\<close> (the exponent, a register value, is not negative); nothing traps.
\<close>

theorem arithmetic_wraps_mod_2_32:
  assumes "length a = 4" and "length b = 4"
    and "x = regs s ! nat (clamp_reg (uint (a ! 3)))"
    and "y = regs s ! nat (clamp_reg (uint (b ! 3)))"
  shows "op_add a b s = Inr (s\<lparr>regs := (regs s)[ACC := (x + y) mod 2 ^ 32]\<rparr>)
       \<and> op_sub a b s = Inr (s\<lparr>regs := (regs s)[ACC := (x - y) mod 2 ^ 32]\<rparr>)
       \<and> op_mul a b s = Inr (s\<lparr>regs := (regs s)[ACC := (x * y) mod 2 ^ 32]\<rparr>)
       \<and> (0 \<le> y \<longrightarrow> op_exp a b s = Inr (s\<lparr>regs := (regs s)[ACC := x ^ nat y mod 2 ^ 32]\<rparr>))"
proof -
  have add: "op_add a b s = Inr (s\<lparr>regs := (regs s)[ACC := (x + y) mod 2 ^ 32]\<rparr>)"
    unfolding op_add_def and_mask32 by (simp add: reg_operand_4 assms(1,2) flip: assms(3,4))
  have sub: "op_sub a b s = Inr (s\<lparr>regs := (regs s)[ACC := (x - y) mod 2 ^ 32]\<rparr>)"
    unfolding op_sub_def and_mask32 by (simp add: reg_operand_4 assms(1,2) flip: assms(3,4))
  have mul: "op_mul a b s = Inr (s\<lparr>regs := (regs s)[ACC := (x * y) mod 2 ^ 32]\<rparr>)"
    unfolding op_mul_def and_mask32 by (simp add: reg_operand_4 assms(1,2) flip: assms(3,4))
  have exp: "op_exp a b s = Inr (s\<lparr>regs := (regs s)[ACC := x ^ nat y mod 2 ^ 32]\<rparr>)" if "0 \<le> y"
    using that
    by (simp add: op_exp_def reg_operand_4 assms(1,2) py_pow3_def pow_mod_eq attempt_Inr flip: assms(3,4))
  from add sub mul exp show ?thesis by blast
qed

theorem arithmetic_wraps_mod_2_32_witness:
  "op_add [0, 0, 0, 0] [0, 0, 0, 1] (vm_with_regs 32 [0xFFFFFFFF, 2])
     = Inr ((vm_with_regs 32 [0xFFFFFFFF, 2])\<lparr>regs := (regs (vm_with_regs 32 [0xFFFFFFFF, 2]))[ACC := 1]\<rparr>)
   \<and> op_sub [0, 0, 0, 1] [0, 0, 0, 0] (vm_with_regs 32 [0xFFFFFFFF, 0])
     = Inr ((vm_with_regs 32 [0xFFFFFFFF, 0])\<lparr>regs := (regs (vm_with_regs 32 [0xFFFFFFFF, 0]))[ACC := 1]\<rparr>)
   \<and> op_mul [0, 0, 0, 0] [0, 0, 0, 0] (vm_with_regs 32 [0xFFFFFFFF, 0])
     = Inr ((vm_with_regs 32 [0xFFFFFFFF, 0])\<lparr>regs := (regs (vm_with_regs 32 [0xFFFFFFFF, 0]))[ACC := 1]\<rparr>)
   \<and> op_exp [0, 0, 0, 0] [0, 0, 0, 1] (vm_with_regs 32 [0xFFFFFFFF, 2])
     = Inr ((vm_with_regs 32 [0xFFFFFFFF, 2])\<lparr>regs := (regs (vm_with_regs 32 [0xFFFFFFFF, 2]))[ACC := 1]\<rparr>)"
proof -
  note add_exp = arithmetic_wraps_mod_2_32
    [of "[0, 0, 0, 0]" "[0, 0, 0, 1]" "0xFFFFFFFF" "vm_with_regs 32 [0xFFFFFFFF, 2]" 2]
  note sub = arithmetic_wraps_mod_2_32
    [of "[0, 0, 0, 1]" "[0, 0, 0, 0]" 0 "vm_with_regs 32 [0xFFFFFFFF, 0]" "0xFFFFFFFF",
     THEN conjunct2, THEN conjunct1]
  note mul = arithmetic_wraps_mod_2_32
    [of "[0, 0, 0, 0]" "[0, 0, 0, 0]" "0xFFFFFFFF" "vm_with_regs 32 [0xFFFFFFFF, 0]" "0xFFFFFFFF",
     THEN conjunct2, THEN conjunct2, THEN conjunct1]
  show ?thesis
    using add_exp sub mul by (simp add: regs_vm_with_regs_2 clamp_reg_def)
qed

subsection \<open>Stack and calls\<close>

text \<open>
  Claim C7. In a state whose stack is in bounds (\<open>4 \<le> sp \<le> len(memory)\<close>), PSH of
  any register followed by POP into any register returns normally both times, leaves
  \<open>sp\<close> at its value before the push and stores the exact pushed value in the popped
  register; the memory keeps its length.
\<close>

theorem psh_then_pop_restores:
  assumes "regs_ok s" and "length a = 4" and "length a' = 4"
    and "4 \<le> sp s" and "sp s \<le> int (length (memory s))"
    and "src = nat (clamp_reg (uint (a ! 3)))" and "dst = nat (clamp_reg (uint (a' ! 3)))"
  shows "\<exists>s1 s2. op_psh a b s = Inr s1 \<and> op_pop a' b' s1 = Inr s2
           \<and> sp s1 = sp s - 4 \<and> sp s2 = sp s \<and> regs s2 ! dst = regs s ! src
           \<and> regs s2 = (regs s)[dst := regs s ! src]
           \<and> length (memory s2) = length (memory s)"
proof -
  have src: "src < 16" and dst: "dst < 16"
    unfolding assms(6,7) by (simp_all add: clamp_reg_def)
  from regs_ok_nth [OF assms(1) src] obtain bytes where
    bytes: "pack_u32_be (regs s ! src) = Inr bytes"
    using pack_u32_be_ok by blast
  define s1 where "s1 = s\<lparr>sp := sp s - 4,
     memory := py_slice_assign (memory s) (sp s - 4) (sp s - 4 + 4) bytes\<rparr>"
  have push: "op_psh a b s = Inr s1"
    using bytes
    by (simp add: op_psh_def reg_operand_4 assms(2) Let_def attempt_Inr s1_def flip: assms(6))
  have rd: "read_u32_be (py_slice (memory s1) (sp s1) (sp s1 + 4)) = Inr (regs s ! src)"
    and len: "length (memory s1) = length (memory s)"
    unfolding s1_def using read_back_word [OF bytes, of "sp s - 4" "memory s"] assms(4,5)
    by simp_all
  define s2 where "s2 = s1\<lparr>regs := (regs s1)[dst := regs s ! src], sp := sp s1 + 4\<rparr>"
  have pop: "op_pop a' b' s1 = Inr s2"
    using rd
    by (simp add: op_pop_def reg_operand_4 assms(3) Let_def attempt_Inr s2_def flip: assms(7))
  have "dst < length (regs s)"
    using assms(1) dst by (simp add: regs_ok_def NUM_REGS_def)
  then have "regs s2 ! dst = regs s ! src" "regs s2 = (regs s)[dst := regs s ! src]"
    by (simp_all add: s2_def s1_def)
  moreover have "sp s1 = sp s - 4" "sp s2 = sp s" "length (memory s2) = length (memory s)"
    using len by (simp_all add: s2_def s1_def)
  ultimately show ?thesis
    using push pop by blast
qed

theorem psh_then_pop_restores_witness:
  "\<exists>s1 s2. op_psh [0, 0, 0, 0] [] (vm_with_regs 32 [42, 0]) = Inr s1
         \<and> op_pop [0, 0, 0, 1] [] s1 = Inr s2
         \<and> sp s1 = 28 \<and> sp s2 = 32 \<and> regs s2 ! 1 = 42"
proof -
  have ok: "regs_ok (vm_with_regs 32 [42, 0])"
    by (simp add: regs_ok_def regs_vm_with_regs_2 NUM_REGS_def)
  have sp: "sp (vm_with_regs 32 [42, 0]) = 32" "length (memory (vm_with_regs 32 [42, 0])) = 32"
    by (simp_all add: vm_with_regs_def init_vm_def)
  from psh_then_pop_restores [OF ok, of "[0, 0, 0, 0]" "[0, 0, 0, 1]" 0 1 "[]" "[]"]
  obtain s1 s2 where "op_psh [0, 0, 0, 0] [] (vm_with_regs 32 [42, 0]) = Inr s1"
    and "op_pop [0, 0, 0, 1] [] s1 = Inr s2" and "sp s1 = 28" and "sp s2 = 32"
    and "regs s2 ! 1 = 42"
    by (auto simp: sp clamp_reg_def regs_vm_with_regs_2)
  then show ?thesis by blast
qed

text \<open>
  Claim C6, amended. In a state whose stack is in bounds and whose advanced \<open>pc\<close> is
  an unsigned 32-bit value (\<open>0 \<le> pc\<close> and \<open>pc + 10 < 2^32\<close> for the address of the
  CALL), a cycle that fetches CALL with address X pushes the already advanced \<open>pc\<close>
  (the address of the instruction after the CALL) and sets \<open>pc\<close> to X; RET executed in
  the state reached, as a handler or as the next cycle, sets \<open>pc\<close> to that address
  after the CALL and \<open>sp\<close> to its value before the CALL.
\<close>

theorem call_then_ret_returns:
  assumes "fetch s = Inr (s', Some (0x33, a, b))" and "read_u32_be a = Inr X"
    and "0 \<le> pc s" and "pc s + 10 < 2 ^ 32"
    and "4 \<le> sp s" and "sp s \<le> int (length (memory s))"
  shows "\<exists>s1. step s = Inr s1 \<and> pc s1 = X \<and> sp s1 = sp s - 4
           \<and> read_u32_be (py_slice (memory s1) (sp s1) (sp s1 + 4)) = Inr (pc s + 10)
           \<and> (\<forall>a' b'. \<exists>s2. op_ret a' b' s1 = Inr s2 \<and> pc s2 = pc s + 10 \<and> sp s2 = sp s)
           \<and> (\<forall>s1' a' b'. fetch s1 = Inr (s1', Some (0x34, a', b')) \<longrightarrow>
                (\<exists>s2. step s1 = Inr s2 \<and> pc s2 = pc s + 10 \<and> sp s2 = sp s))"
proof -
  obtain bytes where bytes: "pack_u32_be (pc s + 10) = Inr bytes"
    using pack_u32_be_ok [of "pc s + 10"] assms(3,4) by auto
  define s1 where "s1 = s\<lparr>pc := X, sp := sp s - 4,
     memory := py_slice_assign (memory s) (sp s - 4) (sp s - 4 + 4) bytes\<rparr>"
  have "step s = op_call a b (s\<lparr>pc := pc s + 10\<rparr>)"
    using assms(1) ops_call by (rule step_dispatch)
  also have "\<dots> = Inr s1"
    using bytes assms(2) by (simp add: op_call_def Let_def attempt_Inr s1_def)
  finally have call: "step s = Inr s1" .
  have rd: "read_u32_be (py_slice (memory s1) (sp s1) (sp s1 + 4)) = Inr (pc s + 10)"
    unfolding s1_def using read_back_word(1) [OF bytes, of "sp s - 4" "memory s"] assms(5,6)
    by simp
  have ret: "op_ret a' b' t = Inr (t\<lparr>pc := pc s + 10, sp := sp s\<rparr>)"
    if "memory t = memory s1" "sp t = sp s1" for a' b' t
    using rd that by (simp add: op_ret_def Let_def attempt_Inr s1_def)
  have handler: "\<exists>s2. op_ret a' b' s1 = Inr s2 \<and> pc s2 = pc s + 10 \<and> sp s2 = sp s" for a' b'
    using ret [of s1 a' b'] by simp
  have cycle: "\<exists>s2. step s1 = Inr s2 \<and> pc s2 = pc s + 10 \<and> sp s2 = sp s"
    if "fetch s1 = Inr (s1', Some (0x34, a', b'))" for s1' a' b'
  proof -
    have "step s1 = op_ret a' b' (s1\<lparr>pc := pc s1 + 10\<rparr>)"
      using that ops_ret by (rule step_dispatch)
    then show ?thesis
      using ret [of "s1\<lparr>pc := pc s1 + 10\<rparr>" a' b'] by simp
  qed
  have "pc s1 = X" "sp s1 = sp s - 4"
    by (simp_all add: s1_def)
  with call rd handler cycle show ?thesis by blast
qed

lemma fetch_call_ret_vm:
  "fetch call_ret_vm = Inr (call_ret_vm, Some (0x33, [0, 0, 0, 20], [0, 0, 0, 0]))"
  by code_simp

lemma step_call_ret_vm: "step call_ret_vm = Inr after_call_vm"
  by code_simp

lemma fetch_after_call_vm:
  "fetch after_call_vm = Inr (after_call_vm, Some (0x34, [0, 0, 0, 0], [0, 0, 0, 0]))"
  by code_simp

theorem call_then_ret_returns_witness:
  "\<exists>s1 s2. step call_ret_vm = Inr s1 \<and> step s1 = Inr s2
     \<and> pc call_ret_vm = 0 \<and> sp call_ret_vm = 40 \<and> pc s1 = 20 \<and> sp s1 = 36
     \<and> pc s2 = 10 \<and> sp s2 = 40"
proof -
  have start: "pc call_ret_vm = 0" "sp call_ret_vm = 40" "length (memory call_ret_vm) = 40"
    by (simp_all add: call_ret_vm_def load_program_def init_vm_def call_ret_program_def)
  have X: "read_u32_be [0, 0, 0, 20] = Inr 20"
    by (simp add: read_u32_be_def be_value_def)
  from call_then_ret_returns [OF fetch_call_ret_vm X] start
  obtain s1 where s1: "step call_ret_vm = Inr s1" "pc s1 = 20" "sp s1 = 36"
    and ret: "\<And>s1' a' b'. fetch s1 = Inr (s1', Some (0x34, a', b')) \<Longrightarrow>
                \<exists>s2. step s1 = Inr s2 \<and> pc s2 = 10 \<and> sp s2 = 40"
    by auto
  from s1(1) have eq: "s1 = after_call_vm"
    by (simp add: step_call_ret_vm)
  with ret [OF fetch_after_call_vm [folded eq]] s1 start
  show ?thesis by auto
qed

text \<open>
  Claim C6 as it stands fails: the stack is in bounds, but the CALL is fetched at
  \<open>pc = -21\<close>, the advanced \<open>pc = -11\<close> is no unsigned 32-bit value, and
  \<open>struct.pack\<close> raises after \<open>sp\<close> has been lowered: nothing is pushed and \<open>pc\<close>
  is not set to the target.
\<close>

lemma step_neg_call_vm: "step neg_call_vm = Inr (neg_call_vm\<lparr>pc := - 21\<rparr>)"
  by code_simp

lemma fetch_neg_call_vm:
  "fetch (neg_call_vm\<lparr>pc := - 21\<rparr>)
     = Inr (neg_call_vm\<lparr>pc := - 21\<rparr>, Some (0x33, [0, 0, 0, 20], [0, 0, 0, 0]))"
  by code_simp

theorem call_with_negative_pc_raises:
  "step neg_call_vm = Inr (neg_call_vm\<lparr>pc := - 21\<rparr>)
   \<and> 4 \<le> sp (neg_call_vm\<lparr>pc := - 21\<rparr>)
   \<and> sp (neg_call_vm\<lparr>pc := - 21\<rparr>) \<le> int (length (memory (neg_call_vm\<lparr>pc := - 21\<rparr>)))
   \<and> fetch (neg_call_vm\<lparr>pc := - 21\<rparr>)
       = Inr (neg_call_vm\<lparr>pc := - 21\<rparr>, Some (0x33, [0, 0, 0, 20], [0, 0, 0, 0]))
   \<and> step (neg_call_vm\<lparr>pc := - 21\<rparr>) = Inl (StructError, neg_call_vm\<lparr>pc := - 11, sp := 60\<rparr>)"
proof -
  have sp: "sp neg_call_vm = 64" "length (memory neg_call_vm) = 64"
    by (simp_all add: neg_call_vm_def load_program_def init_vm_def)
  have call: "map_of ops 0x33 = Some op_call"
    by (simp add: ops_def)
  have "step (neg_call_vm\<lparr>pc := - 21\<rparr>)
          = op_call [0, 0, 0, 20] [0, 0, 0, 0] (neg_call_vm\<lparr>pc := - 21, pc := - 21 + 10\<rparr>)"
    using step_dispatch [OF fetch_neg_call_vm call] by simp
  also have "\<dots> = Inl (StructError, neg_call_vm\<lparr>pc := - 11, sp := 60\<rparr>)"
    by (simp add: op_call_def read_u32_be_def attempt_def pack_u32_be_def Let_def sp)
  finally show ?thesis
    using step_neg_call_vm fetch_neg_call_vm sp by simp
qed

subsection \<open>The program counter\<close>

text \<open>
  Claim C5. In every cycle that fetches an instruction, \<open>pc\<close> is advanced by 10 before
  the handler runs (and also when the opcode is unknown): the handler is applied to the
  state with \<open>pc + 10\<close>. So JMP and a taken CMP replace the advanced value by their
  address, JMR and a taken CMR add their signed offset to \<open>pc + 10\<close>, and a CMP or CMR
  that is not taken leaves \<open>pc + 10\<close>.
\<close>

theorem pc_advanced_before_dispatch:
  assumes "fetch s = Inr (s', Some (opcode, a, b))"
  shows "(\<forall>h. map_of ops opcode = Some h \<longrightarrow> step s = h a b (s\<lparr>pc := pc s + 10\<rparr>))
       \<and> (map_of ops opcode = None \<longrightarrow> (\<exists>t. step s = Inr t \<and> pc t = pc s + 10))
       \<and> (\<forall>addr. opcode = 0x20 \<and> read_u32_be a = Inr addr \<longrightarrow> step s = Inr (s\<lparr>pc := addr\<rparr>))
       \<and> (\<forall>offset. opcode = 0x21 \<and> read_s32_be a = Inr offset \<longrightarrow>
             step s = Inr (s\<lparr>pc := pc s + 10 + offset\<rparr>))
       \<and> (\<forall>addr. opcode = 0x22 \<and> length a = 4 \<and> read_u32_be b = Inr addr \<longrightarrow>
             step s = Inr (s\<lparr>pc := (if regs s ! nat (clamp_reg (uint (a ! 3))) \<noteq> 0
                                      then addr else pc s + 10)\<rparr>))
       \<and> (\<forall>offset. opcode = 0x23 \<and> length a = 4 \<and> read_s32_be b = Inr offset \<longrightarrow>
             step s = Inr (s\<lparr>pc := (if regs s ! nat (clamp_reg (uint (a ! 3))) \<noteq> 0
                                      then pc s + 10 + offset else pc s + 10)\<rparr>))"
proof -
  note dispatch = step_dispatch [OF assms]
  have 1: "\<forall>h. map_of ops opcode = Some h \<longrightarrow> step s = h a b (s\<lparr>pc := pc s + 10\<rparr>)"
    using dispatch by blast
  have 2: "map_of ops opcode = None \<longrightarrow> (\<exists>t. step s = Inr t \<and> pc t = pc s + 10)"
    using step_unknown [OF assms] by simp
  have 3: "step s = Inr (s\<lparr>pc := addr\<rparr>)" if "opcode = 0x20" "read_u32_be a = Inr addr" for addr
    using dispatch [of op_jmp] that by (simp add: ops_def op_jmp_def attempt_Inr)
  have 4: "step s = Inr (s\<lparr>pc := pc s + 10 + offset\<rparr>)"
    if "opcode = 0x21" "read_s32_be a = Inr offset" for offset
    using dispatch [of op_jmr] that by (simp add: ops_def op_jmr_def attempt_Inr)
  have 5: "step s = Inr (s\<lparr>pc := (if regs s ! nat (clamp_reg (uint (a ! 3))) \<noteq> 0
                                      then addr else pc s + 10)\<rparr>)"
    if "opcode = 0x22" "length a = 4" "read_u32_be b = Inr addr" for addr
    using dispatch [of op_cmp] that by (simp add: ops_def op_cmp_def attempt_Inr reg_operand_4)
  have 6: "step s = Inr (s\<lparr>pc := (if regs s ! nat (clamp_reg (uint (a ! 3))) \<noteq> 0
                                      then pc s + 10 + offset else pc s + 10)\<rparr>)"
    if "opcode = 0x23" "length a = 4" "read_s32_be b = Inr offset" for offset
    using dispatch [of op_cmr] that by (simp add: ops_def op_cmr_def attempt_Inr reg_operand_4)
  from 1 2 3 4 5 6 show ?thesis by blast
qed

lemma fetch_jmr_vm:
  "fetch jmr_vm = Inr (jmr_vm, Some (0x21, [0xFF, 0xFF, 0xFF, 0xFC], [0, 0, 0, 0]))"
  by code_simp

lemma read_s32_minus_4: "read_s32_be [0xFF, 0xFF, 0xFF, 0xFC] = Inr (- 4)"
  by (simp add: read_s32_be_def be_value_def)

theorem pc_advanced_before_dispatch_witness:
  "pc jmr_vm = 0 \<and> step jmr_vm = Inr (jmr_vm\<lparr>pc := 6\<rparr>)"
proof -
  have "pc jmr_vm = 0"
    by (simp add: jmr_vm_def load_program_def init_vm_def)
  then show ?thesis
    using pc_advanced_before_dispatch [OF fetch_jmr_vm] read_s32_minus_4 by simp
qed

subsection \<open>A negative program counter\<close>

text \<open>
  Claim C10, amended. JMR, and CMR when taken, add their signed offset to \<open>pc\<close> with no
  check of the sign. For \<open>pc\<close> from \<open>-len(memory)\<close> to \<open>-11\<close> the test
  \<open>pc + 10 > len(memory)\<close> is false and the 10 instruction bytes are read from offset
  \<open>len(memory) + pc\<close>, so that the fetch neither halts nor raises. (The claim gives the
  range up to \<open>-10\<close>; its refutation at \<open>pc = -10\<close> follows.)
\<close>

theorem fetch_wraps_for_pc_below_minus_10:
  assumes "- int (length (memory s)) \<le> pc s" and "pc s \<le> - 11"
    and "instr = take 10 (drop (nat (int (length (memory s)) + pc s)) (memory s))"
  shows "\<not> pc s + 10 > int (length (memory s))
       \<and> py_slice (memory s) (pc s) (pc s + 10) = instr \<and> length instr = 10
       \<and> fetch s = Inr (s, Some (push_bit 8 (uint (instr ! 0)) OR uint (instr ! 1),
                                 py_slice instr 2 6, py_slice instr 6 10))
       \<and> (\<forall>t a b offset. read_s32_be a = Inr offset \<longrightarrow>
             op_jmr a b t = Inr (t\<lparr>pc := pc t + offset\<rparr>))
       \<and> (\<forall>t a b offset. length a = 4 \<and> read_s32_be b = Inr offset
               \<and> regs t ! nat (clamp_reg (uint (a ! 3))) \<noteq> 0 \<longrightarrow>
             op_cmr a b t = Inr (t\<lparr>pc := pc t + offset\<rparr>))"
proof -
  have cond: "pc s + 10 \<le> int (length (memory s))"
    using assms(2) by linarith
  have slice: "py_slice (memory s) (pc s) (pc s + 10) = instr"
    using py_slice_wrapped [of "memory s" "pc s" 10] assms by simp
  have len: "length instr = 10"
    unfolding assms(3) using assms(1,2) by simp
  have "fetch s = Inr (s, Some (push_bit 8 (uint (instr ! 0)) OR uint (instr ! 1),
                                 py_slice instr 2 6, py_slice instr 6 10))"
    using cond slice [symmetric] by (rule fetch_two_bytes) (simp add: len)
  moreover have "op_jmr a b t = Inr (t\<lparr>pc := pc t + offset\<rparr>)"
    if "read_s32_be a = Inr offset" for t a b offset
    using that by (simp add: op_jmr_def attempt_Inr)
  moreover have "op_cmr a b t = Inr (t\<lparr>pc := pc t + offset\<rparr>)"
    if "length a = 4 \<and> read_s32_be b = Inr offset
               \<and> regs t ! nat (clamp_reg (uint (a ! 3))) \<noteq> 0" for t a b offset
    using that by (simp add: op_cmr_def attempt_Inr reg_operand_4)
  ultimately show ?thesis
    using cond slice len by (simp only: not_less) blast
qed

theorem fetch_wraps_for_pc_below_minus_10_witness:
  "fetch (lc_at_top_vm\<lparr>pc := - 11\<rparr>)
     = Inr (lc_at_top_vm\<lparr>pc := - 11\<rparr>, Some (0x02, [0, 0, 0, 5], [0, 0, 0, 0]))"
proof -
  have "take 10 (drop 21 (memory lc_at_top_vm)) = [0, 0x02, 0, 0, 0, 5, 0, 0, 0, 0]"
    by code_simp
  moreover have "py_slice [0, 0x02, 0, 0, 0, 5, 0, 0, 0, 0 :: byte] 2 6 = [0, 0, 0, 5]"
    "py_slice [0, 0x02, 0, 0, 0, 5, 0, 0, 0, 0 :: byte] 6 10 = [0, 0, 0, 0]"
    by code_simp+
  moreover have "length (memory lc_at_top_vm) = 32"
    by (simp add: lc_at_top_vm_def)
  ultimately show ?thesis
    using fetch_wraps_for_pc_below_minus_10 [of "lc_at_top_vm\<lparr>pc := - 11\<rparr>", OF _ _ refl]
    by simp
qed

text \<open>
  Claim C10 as it stands fails at its upper bound: at \<open>pc = -10\<close> the slice \<open>memory[-10:0]\<close> is empty, \<open>instr[0]\<close> raises
  \<open>IndexError\<close> and nothing is read from offset \<open>len(memory) - 10\<close>.
\<close>

theorem fetch_at_pc_minus_10_raises:
  "\<not> pc (lc_at_top_vm\<lparr>pc := - 10\<rparr>) + 10 > int (length (memory (lc_at_top_vm\<lparr>pc := - 10\<rparr>)))
   \<and> py_slice (memory (lc_at_top_vm\<lparr>pc := - 10\<rparr>)) (- 10) (- 10 + 10) = []
   \<and> fetch (lc_at_top_vm\<lparr>pc := - 10\<rparr>) = Inl (IndexError, lc_at_top_vm\<lparr>pc := - 10\<rparr>)"
proof -
  have len: "length (memory lc_at_top_vm) = 32"
    by (simp add: lc_at_top_vm_def)
  have empty: "py_slice (memory lc_at_top_vm) (- 10) 0 = []"
    by (rule py_slice_empty_across_zero) (simp_all add: len)
  then have "fetch (lc_at_top_vm\<lparr>pc := - 10\<rparr>) = Inl (IndexError, lc_at_top_vm\<lparr>pc := - 10\<rparr>)"
    by (intro fetch_short_slice) (simp_all add: len)
  with empty len show ?thesis by simp
qed

subsection \<open>The run loop\<close>

text \<open>
  Claim C8, amended. A cycle with \<open>pc + 10 > len(memory)\<close> ends the loop with
  \<open>running\<close> cleared and nothing printed. A cycle whose fetched opcode has no handler
  prints the opcode and the address the instruction started at and ends the loop. A
  cycle whose fetched opcode has a handler applies it and leaves \<open>running\<close> as it was,
  whether the handler returns or raises. An instruction is fetched whenever the slice
  \<open>memory[pc:pc+10]\<close> has at least two bytes, which it has for every \<open>pc \<ge> 0\<close> with
  \<open>pc + 10 \<le> len(memory)\<close>; with a shorter slice the fetch raises \<open>IndexError\<close> and
  no instruction is dispatched.
\<close>

theorem run_loop_cycle:
  assumes "running s"
  shows "(pc s + 10 > int (length (memory s)) \<longrightarrow>
            step s = Inr (s\<lparr>running := False\<rparr>)
          \<and> run (Suc n) s = Some (Inr (s\<lparr>running := False\<rparr>)))
       \<and> (\<forall>s' opcode a b. fetch s = Inr (s', Some (opcode, a, b)) \<and> map_of ops opcode = None \<longrightarrow>
            step s = Inr (s\<lparr>pc := pc s + 10,
                     printed := printed s @ [Unknown_opcode opcode (pc s)], running := False\<rparr>)
          \<and> run (Suc n) s = Some (Inr (s\<lparr>pc := pc s + 10,
                     printed := printed s @ [Unknown_opcode opcode (pc s)], running := False\<rparr>)))
       \<and> (\<forall>s' opcode a b h. fetch s = Inr (s', Some (opcode, a, b)) \<and> map_of ops opcode = Some h \<longrightarrow>
            step s = h a b (s\<lparr>pc := pc s + 10\<rparr>)
          \<and> (\<forall>t. step s = Inr t \<longrightarrow> running t \<and> printed t = printed s)
          \<and> (\<forall>e t. step s = Inl (e, t) \<longrightarrow> running t \<and> printed t = printed s))
       \<and> (pc s + 10 \<le> int (length (memory s))
            \<and> 2 \<le> length (py_slice (memory s) (pc s) (pc s + 10)) \<longrightarrow>
            (\<exists>opcode a b. fetch s = Inr (s, Some (opcode, a, b))))
       \<and> (0 \<le> pc s \<and> pc s + 10 \<le> int (length (memory s)) \<longrightarrow>
            (\<exists>opcode a b. fetch s = Inr (s, Some (opcode, a, b)) \<and> length a = 4 \<and> length b = 4))
       \<and> (pc s + 10 \<le> int (length (memory s))
            \<and> length (py_slice (memory s) (pc s) (pc s + 10)) < 2 \<longrightarrow>
            step s = Inl (IndexError, s) \<and> run (Suc n) s = Some (Inl (IndexError, s)))"
proof -
  have 1: "step s = Inr (s\<lparr>running := False\<rparr>)
          \<and> run (Suc n) s = Some (Inr (s\<lparr>running := False\<rparr>))"
    if "pc s + 10 > int (length (memory s))"
  proof -
    have "step s = Inr (s\<lparr>running := False\<rparr>)"
      using that by (simp add: step_def fetch_end_of_memory)
    then show ?thesis
      using assms by (simp add: run_Suc run_halted)
  qed
  have 2: "step s = Inr (s\<lparr>pc := pc s + 10,
                     printed := printed s @ [Unknown_opcode opcode (pc s)], running := False\<rparr>)
          \<and> run (Suc n) s = Some (Inr (s\<lparr>pc := pc s + 10,
                     printed := printed s @ [Unknown_opcode opcode (pc s)], running := False\<rparr>))"
    if "fetch s = Inr (s', Some (opcode, a, b)) \<and> map_of ops opcode = None" for s' opcode a b
  proof -
    have "step s = Inr (s\<lparr>pc := pc s + 10,
                     printed := printed s @ [Unknown_opcode opcode (pc s)], running := False\<rparr>)"
      using that by (simp add: step_unknown)
    then show ?thesis
      using assms by (simp add: run_Suc run_halted)
  qed
  have 3: "step s = h a b (s\<lparr>pc := pc s + 10\<rparr>)
          \<and> (\<forall>t. step s = Inr t \<longrightarrow> running t \<and> printed t = printed s)
          \<and> (\<forall>e t. step s = Inl (e, t) \<longrightarrow> running t \<and> printed t = printed s)"
    if "fetch s = Inr (s', Some (opcode, a, b)) \<and> map_of ops opcode = Some h" for s' opcode a b h
  proof -
    from that have dispatch: "step s = h a b (s\<lparr>pc := pc s + 10\<rparr>)"
      by (simp add: step_dispatch)
    from that have h: "map_of ops opcode = Some h" by simp
    show ?thesis
      using handler_keeps_running [OF h, of a b "s\<lparr>pc := pc s + 10\<rparr>"]
        handler_keeps_printed [OF h, of a b "s\<lparr>pc := pc s + 10\<rparr>"] assms
      by (simp add: dispatch)
  qed
  have 4: "\<exists>opcode a b. fetch s = Inr (s, Some (opcode, a, b))"
    if "pc s + 10 \<le> int (length (memory s))
            \<and> 2 \<le> length (py_slice (memory s) (pc s) (pc s + 10))"
    using that fetch_two_bytes [of s, OF _ refl] by blast
  have 5: "\<exists>opcode a b. fetch s = Inr (s, Some (opcode, a, b)) \<and> length a = 4 \<and> length b = 4"
    if "0 \<le> pc s \<and> pc s + 10 \<le> int (length (memory s))"
    using that by (simp add: fetch_nonneg_pc)
  have 6: "step s = Inl (IndexError, s) \<and> run (Suc n) s = Some (Inl (IndexError, s))"
    if "pc s + 10 \<le> int (length (memory s))
            \<and> length (py_slice (memory s) (pc s) (pc s + 10)) < 2"
  proof -
    from that have "fetch s = Inl (IndexError, s)"
      by (simp add: fetch_short_slice)
    then have "step s = Inl (IndexError, s)"
      by (simp add: step_def)
    then show ?thesis
      using assms by (simp add: run_Suc)
  qed
  from 1 2 3 4 5 6 show ?thesis by blast
qed

lemma fetch_zero_memory:
  "fetch (init_vm 32) = Inr (init_vm 32, Some (0, [0, 0, 0, 0], [0, 0, 0, 0]))"
  by code_simp

theorem run_loop_cycle_witness:
  "run 1 (init_vm 5) = Some (Inr ((init_vm 5)\<lparr>running := False\<rparr>))
   \<and> run 1 (init_vm 32)
       = Some (Inr ((init_vm 32)\<lparr>pc := 10, printed := [Unknown_opcode 0 0], running := False\<rparr>))
   \<and> step jmr_vm = op_jmr [0xFF, 0xFF, 0xFF, 0xFC] [0, 0, 0, 0] (jmr_vm\<lparr>pc := 10\<rparr>)"
proof -
  have r5: "running (init_vm 5)" and r32: "running (init_vm 32)" and rj: "running jmr_vm"
    by (simp_all add: init_vm_def jmr_vm_def load_program_def)
  have unknown: "map_of ops 0 = None" and jmr: "map_of ops 0x21 = Some op_jmr"
    by (simp_all add: ops_def)
  have "run (Suc 0) (init_vm 5) = Some (Inr ((init_vm 5)\<lparr>running := False\<rparr>))"
    using run_loop_cycle [OF r5, of 0] by (simp add: init_vm_def)
  moreover have "run (Suc 0) (init_vm 32)
       = Some (Inr ((init_vm 32)\<lparr>pc := 10, printed := [Unknown_opcode 0 0], running := False\<rparr>))"
    using run_loop_cycle [OF r32, of 0] fetch_zero_memory unknown by (simp add: init_vm_def)
  moreover have "step jmr_vm = op_jmr [0xFF, 0xFF, 0xFF, 0xFC] [0, 0, 0, 0] (jmr_vm\<lparr>pc := 10\<rparr>)"
    using run_loop_cycle [OF rj, of 0] fetch_jmr_vm jmr
    by (simp add: jmr_vm_def load_program_def init_vm_def)
  ultimately show ?thesis by simp
qed

text \<open>
  Claim C8 as it stands fails: after JMR -20 at address 0 the next cycle has
  \<open>pc = -10\<close>, so \<open>pc + 10 > len(memory)\<close> is false, yet no instruction is dispatched
  and no diagnostic is printed: the fetch raises \<open>IndexError\<close>, which leaves \<open>run\<close>.
\<close>

lemma fetch_jmr_back_vm:
  "fetch jmr_back_vm = Inr (jmr_back_vm, Some (0x21, [0xFF, 0xFF, 0xFF, 0xEC], [0, 0, 0, 0]))"
  by code_simp

lemma step_jmr_back_vm: "step jmr_back_vm = Inr (jmr_back_vm\<lparr>pc := - 10\<rparr>)"
proof -
  have "read_s32_be [0xFF, 0xFF, 0xFF, 0xEC] = Inr (- 20)"
    by (simp add: read_s32_be_def be_value_def)
  moreover have "map_of ops 0x21 = Some op_jmr"
    by (simp add: ops_def)
  moreover have "pc jmr_back_vm = 0"
    by (simp add: jmr_back_vm_def load_program_def init_vm_def)
  ultimately show ?thesis
    using step_dispatch [OF fetch_jmr_back_vm, of op_jmr]
    by (simp add: op_jmr_def attempt_Inr)
qed

theorem cycle_at_pc_minus_10_raises:
  "running jmr_back_vm
   \<and> step jmr_back_vm = Inr (jmr_back_vm\<lparr>pc := - 10\<rparr>)
   \<and> running (jmr_back_vm\<lparr>pc := - 10\<rparr>)
   \<and> \<not> pc (jmr_back_vm\<lparr>pc := - 10\<rparr>) + 10 > int (length (memory (jmr_back_vm\<lparr>pc := - 10\<rparr>)))
   \<and> step (jmr_back_vm\<lparr>pc := - 10\<rparr>) = Inl (IndexError, jmr_back_vm\<lparr>pc := - 10\<rparr>)
   \<and> run 2 jmr_back_vm = Some (Inl (IndexError, jmr_back_vm\<lparr>pc := - 10\<rparr>))"
proof -
  have len: "length (memory jmr_back_vm) = 32" and r: "running jmr_back_vm"
    by (simp_all add: jmr_back_vm_def load_program_def init_vm_def jmr_back_program_def)
  have "py_slice (memory jmr_back_vm) (- 10) 0 = []"
    by (rule py_slice_empty_across_zero) (simp_all add: len)
  then have "fetch (jmr_back_vm\<lparr>pc := - 10\<rparr>) = Inl (IndexError, jmr_back_vm\<lparr>pc := - 10\<rparr>)"
    by (intro fetch_short_slice) (simp_all add: len)
  then have raise: "step (jmr_back_vm\<lparr>pc := - 10\<rparr>) = Inl (IndexError, jmr_back_vm\<lparr>pc := - 10\<rparr>)"
    by (simp add: step_def)
  have "run (Suc (Suc 0)) jmr_back_vm = Some (Inl (IndexError, jmr_back_vm\<lparr>pc := - 10\<rparr>))"
    using r raise by (simp add: run_Suc step_jmr_back_vm)
  then have "run 2 jmr_back_vm = Some (Inl (IndexError, jmr_back_vm\<lparr>pc := - 10\<rparr>))"
    by (simp add: numeral_2_eq_2)
  with r raise len show ?thesis
    by (simp add: step_jmr_back_vm)
qed

subsection \<open>Memory accesses beyond the end\<close>

text \<open>
  Claim C1, amended. Let \<open>0 \<le> addr\<close> and \<open>addr + 4 > len(memory)\<close>. The instructions
  that read memory (LD, LDI, POP, RET) then raise \<open>struct.error\<close> before any write to a
  register, to \<open>pc\<close> or to \<open>sp\<close>: the state at the raise is the state the handler
  was given, and the exception leaves \<open>run\<close> uncaught. The instructions that write
  memory (DR, STI, PSH, CALL) do not fault at all when the value fits in 32 bits: the
  four bytes replace the bytes from \<open>addr\<close> to the end and the memory grows.
\<close>

theorem access_beyond_end_of_memory:
  assumes "0 \<le> addr" and "int (length (memory s)) < addr + 4"
    and "length a = 4" and "length b = 4"
    and "ra = nat (clamp_reg (uint (a ! 3)))" and "rb = nat (clamp_reg (uint (b ! 3)))"
  shows "(read_u32_be a = Inr addr \<longrightarrow> op_ld a b s = Inl (StructError, s))
       \<and> (regs s ! ra = addr \<longrightarrow> op_ldi a b s = Inl (StructError, s))
       \<and> (sp s = addr \<longrightarrow> op_pop a b s = Inl (StructError, s))
       \<and> (sp s = addr \<longrightarrow> op_ret a b s = Inl (StructError, s))
       \<and> (\<forall>n h opcode. running s \<and> fetch s = Inr (s, Some (opcode, a, b))
             \<and> map_of ops opcode = Some h
             \<and> h a b (s\<lparr>pc := pc s + 10\<rparr>) = Inl (StructError, s\<lparr>pc := pc s + 10\<rparr>) \<longrightarrow>
             run (Suc n) s = Some (Inl (StructError, s\<lparr>pc := pc s + 10\<rparr>)))
       \<and> (\<forall>bytes. read_u32_be b = Inr addr \<and> pack_u32_be (regs s ! ra) = Inr bytes \<longrightarrow>
             op_dr a b s = Inr (s\<lparr>memory := take (nat addr) (memory s) @ bytes\<rparr>)
             \<and> length (memory s) < length (take (nat addr) (memory s) @ bytes))
       \<and> (\<forall>bytes. regs s ! rb = addr \<and> pack_u32_be (regs s ! ra) = Inr bytes \<longrightarrow>
             op_sti a b s = Inr (s\<lparr>memory := take (nat addr) (memory s) @ bytes\<rparr>)
             \<and> length (memory s) < length (take (nat addr) (memory s) @ bytes))
       \<and> (\<forall>bytes. sp s - 4 = addr \<and> pack_u32_be (regs s ! ra) = Inr bytes \<longrightarrow>
             op_psh a b s = Inr (s\<lparr>sp := addr, memory := take (nat addr) (memory s) @ bytes\<rparr>)
             \<and> length (memory s) < length (take (nat addr) (memory s) @ bytes))
       \<and> (\<forall>bytes X. sp s - 4 = addr \<and> read_u32_be a = Inr X \<and> pack_u32_be (pc s) = Inr bytes \<longrightarrow>
             op_call a b s
               = Inr (s\<lparr>sp := addr, memory := take (nat addr) (memory s) @ bytes, pc := X\<rparr>)
             \<and> length (memory s) < length (take (nat addr) (memory s) @ bytes))"
proof -
  note rd = read_beyond_end [OF assms(1,2)]
  note wr = py_slice_assign_beyond_end [OF assms(1,2)]
  have grow: "length (memory s) < length (take (nat addr) (memory s) @ bytes)"
    if "pack_u32_be v = Inr bytes" for v bytes
    using write_beyond_end_grows [OF assms(1,2) length_pack_u32 [OF that]] .
  have ld: "op_ld a b s = Inl (StructError, s)" if "read_u32_be a = Inr addr"
    using that rd by (simp add: op_ld_def reg_operand_4 assms(4) attempt_Inr attempt_Inl)
  have ldi: "op_ldi a b s = Inl (StructError, s)" if "regs s ! ra = addr"
    using that rd
    by (simp add: op_ldi_def reg_operand_4 assms(3,4) Let_def attempt_Inl flip: assms(5))
  have pop: "op_pop a b s = Inl (StructError, s)" if "sp s = addr"
    using that rd by (simp add: op_pop_def reg_operand_4 assms(3) attempt_Inl)
  have ret: "op_ret a b s = Inl (StructError, s)" if "sp s = addr"
    using that rd by (simp add: op_ret_def attempt_Inl)
  have uncaught: "run (Suc n) s = Some (Inl (StructError, s\<lparr>pc := pc s + 10\<rparr>))"
    if "running s \<and> fetch s = Inr (s, Some (opcode, a, b)) \<and> map_of ops opcode = Some h
        \<and> h a b (s\<lparr>pc := pc s + 10\<rparr>) = Inl (StructError, s\<lparr>pc := pc s + 10\<rparr>)"
    for n h opcode
    using that step_dispatch [of s s opcode a b h] by (simp add: run_Suc)
  have dr: "op_dr a b s = Inr (s\<lparr>memory := take (nat addr) (memory s) @ bytes\<rparr>)"
    if "read_u32_be b = Inr addr \<and> pack_u32_be (regs s ! ra) = Inr bytes" for bytes
    using that wr by (simp add: op_dr_def reg_operand_4 assms(3) attempt_Inr flip: assms(5))
  have sti: "op_sti a b s = Inr (s\<lparr>memory := take (nat addr) (memory s) @ bytes\<rparr>)"
    if "regs s ! rb = addr \<and> pack_u32_be (regs s ! ra) = Inr bytes" for bytes
    using that wr
    by (simp add: op_sti_def reg_operand_4 assms(3,4) Let_def attempt_Inr flip: assms(5,6))
  have psh: "op_psh a b s = Inr (s\<lparr>sp := addr, memory := take (nat addr) (memory s) @ bytes\<rparr>)"
    if "sp s - 4 = addr \<and> pack_u32_be (regs s ! ra) = Inr bytes" for bytes
    using that wr
    by (simp add: op_psh_def reg_operand_4 assms(3) Let_def attempt_Inr flip: assms(5))
  have call: "op_call a b s
               = Inr (s\<lparr>sp := addr, memory := take (nat addr) (memory s) @ bytes, pc := X\<rparr>)"
    if "sp s - 4 = addr \<and> read_u32_be a = Inr X \<and> pack_u32_be (pc s) = Inr bytes" for bytes X
    using that wr by (simp add: op_call_def Let_def attempt_Inr)
  from ld ldi pop ret uncaught dr sti psh call grow show ?thesis
    by blast
qed

lemma pack_01020304: "pack_u32_be 0x01020304 = Inr [1, 2, 3, 4]"
  by (simp add: pack_u32_be_def)

theorem access_beyond_end_of_memory_witness:
  "op_ld [0, 0, 0, 14] [0, 0, 0, 1] (vm_with_regs 16 [0x01020304, 0])
     = Inl (StructError, vm_with_regs 16 [0x01020304, 0])
   \<and> op_dr [0, 0, 0, 0] [0, 0, 0, 14] (vm_with_regs 16 [0x01020304, 0])
     = Inr ((vm_with_regs 16 [0x01020304, 0])\<lparr>memory := replicate 14 0 @ [1, 2, 3, 4]\<rparr>)"
proof -
  have len: "memory (vm_with_regs 16 [0x01020304, 0]) = replicate 16 0"
    by (simp add: vm_with_regs_def init_vm_def)
  have addr: "read_u32_be [0, 0, 0, 14] = Inr 14"
    by (simp add: read_u32_be_def be_value_def)
  have "op_ld [0, 0, 0, 14] [0, 0, 0, 1] (vm_with_regs 16 [0x01020304, 0])
     = Inl (StructError, vm_with_regs 16 [0x01020304, 0])"
    using access_beyond_end_of_memory
      [of 14 "vm_with_regs 16 [0x01020304, 0]" "[0, 0, 0, 14]" "[0, 0, 0, 1]", OF _ _ _ _ refl refl]
      addr
    by (simp add: len)
  moreover have "op_dr [0, 0, 0, 0] [0, 0, 0, 14] (vm_with_regs 16 [0x01020304, 0])
     = Inr ((vm_with_regs 16 [0x01020304, 0])\<lparr>memory := replicate 14 0 @ [1, 2, 3, 4]\<rparr>)"
    using access_beyond_end_of_memory
      [of 14 "vm_with_regs 16 [0x01020304, 0]" "[0, 0, 0, 0]" "[0, 0, 0, 14]", OF _ _ _ _ refl refl]
      addr pack_01020304
    by (simp add: len regs_vm_with_regs_2 clamp_reg_def)
  ultimately show ?thesis by simp
qed

text \<open>
  Claim C1 as it stands fails: DR to the address \<open>len(memory)\<close> of a 16-byte memory
  returns normally, and the memory gains the four bytes of the register.
\<close>

theorem dr_at_end_of_memory_writes:
  "read_u32_be [0, 0, 0, 16] = Inr 16
   \<and> int (length (memory (vm_with_regs 16 [0x01020304, 0]))) < 16 + 4
   \<and> op_dr [0, 0, 0, 0] [0, 0, 0, 16] (vm_with_regs 16 [0x01020304, 0])
     = Inr ((vm_with_regs 16 [0x01020304, 0])\<lparr>memory := replicate 16 0 @ [1, 2, 3, 4]\<rparr>)"
proof -
  have mem: "memory (vm_with_regs 16 [0x01020304, 0]) = replicate 16 0"
    by (simp add: vm_with_regs_def init_vm_def)
  have addr: "read_u32_be [0, 0, 0, 16] = Inr 16"
    by (simp add: read_u32_be_def be_value_def)
  have "py_slice_assign (replicate 16 (0 :: byte)) 16 (16 + 4) [1, 2, 3, 4]
          = replicate 16 0 @ [1, 2, 3, 4]"
    by (simp add: py_slice_assign_def slice_index_def)
  then have "op_dr [0, 0, 0, 0] [0, 0, 0, 16] (vm_with_regs 16 [0x01020304, 0])
     = Inr ((vm_with_regs 16 [0x01020304, 0])\<lparr>memory := replicate 16 0 @ [1, 2, 3, 4]\<rparr>)"
    using addr pack_01020304
    by (simp add: op_dr_def reg_operand_4 attempt_Inr regs_vm_with_regs_2 clamp_reg_def mem)
  with mem addr show ?thesis by simp
qed

subsection \<open>The register index clamp\<close>

text \<open>
  Claim C2. For every handler of the table, every state and all operand bytes: in a
  field that the handler reads as a register operand (A or B), the index 15 gives the
  same outcome as the index 14. No explicit operand reaches register 15: a handler
  outside the arithmetic, bitwise and comparison families leaves register 15 as it was,
  whether it returns or raises, and for every handler the outcome apart from register 15
  itself does not depend on the value register 15 had.
\<close>

theorem register_15_only_implicit:
  assumes "map_of ops opcode = Some h" and "length p = 3"
  shows "(opcode \<in> set reg_in_a \<longrightarrow> h (p @ [15]) b s = h (p @ [14]) b s)
       \<and> (opcode \<in> set reg_in_b \<longrightarrow> h a (p @ [15]) s = h a (p @ [14]) s)
       \<and> (opcode \<notin> set acc_opcodes \<longrightarrow>
            (\<forall>t. h a b s = Inr t \<longrightarrow> regs t ! ACC = regs s ! ACC)
          \<and> (\<forall>e t. h a b s = Inl (e, t) \<longrightarrow> regs t ! ACC = regs s ! ACC))
       \<and> (\<forall>v w. map_outcome (set_r15 w) (h a b (set_r15 v s))
                 = map_outcome (set_r15 w) (h a b s))"
proof -
  have "h (p @ [15]) b s = h (p @ [14]) b s" if "opcode \<in> set reg_in_a"
    using assms(1) that assms(2) by (rule index_15_as_14_in_a)
  moreover have "h a (p @ [15]) s = h a (p @ [14]) s" if "opcode \<in> set reg_in_b"
    using assms(1) that assms(2) by (rule index_15_as_14_in_b)
  moreover have "(\<forall>t. h a b s = Inr t \<longrightarrow> regs t ! ACC = regs s ! ACC)
          \<and> (\<forall>e t. h a b s = Inl (e, t) \<longrightarrow> regs t ! ACC = regs s ! ACC)"
    if "opcode \<notin> set acc_opcodes"
    using only_acc_family_writes_r15 [OF assms(1) that] by blast
  moreover have "\<forall>v w. map_outcome (set_r15 w) (h a b (set_r15 v s))
                 = map_outcome (set_r15 w) (h a b s)"
    using r15_never_read [OF assms(1)] by blast
  ultimately show ?thesis by blast
qed

theorem register_15_only_implicit_witness:
  "op_cpy [0, 0, 0, 15] [0, 0, 0, 0] (vm_with_regs 32 [7, 0])
     = op_cpy [0, 0, 0, 14] [0, 0, 0, 0] (vm_with_regs 32 [7, 0])
   \<and> op_cpy [0, 0, 0, 0] [0, 0, 0, 15] (vm_with_regs 32 [7, 0])
     = Inr ((vm_with_regs 32 [7, 0])\<lparr>regs := (regs (vm_with_regs 32 [7, 0]))[14 := 7]\<rparr>)"
proof -
  have cpy: "map_of ops 0x04 = Some op_cpy"
    by (simp add: ops_def)
  have "op_cpy [0, 0, 0, 0] [0, 0, 0, 14] (vm_with_regs 32 [7, 0])
     = Inr ((vm_with_regs 32 [7, 0])\<lparr>regs := (regs (vm_with_regs 32 [7, 0]))[14 := 7]\<rparr>)"
    by (simp add: op_cpy_def reg_operand_4 clamp_reg_def regs_vm_with_regs_2)
  then show ?thesis
    using register_15_only_implicit [OF cpy, of "[0, 0, 0]" "[0, 0, 0, 0]" "vm_with_regs 32 [7, 0]" "[0, 0, 0, 0]"]
    by (simp add: reg_in_a_def reg_in_b_def)
qed

end
